theory Spec2Isabelle
  imports Complex_Main "HOL-Library.Multiset" "HOL-Library.Product_Lexorder"
begin

section \<open>The binary heap of the scheduler (core/Heap.ts)\<close>

text \<open>
  \<^verbatim>\<open>Heap<T>\<close> keeps its items in a JavaScript array and orders them with the comparator
  given to its constructor.  The comparator never changes after construction, so the
  operations below take it as their first argument and the array as a list.  A comparator
  returns a number; only its sign is inspected (\<^verbatim>\<open>compare(item, parent) >= 0\<close>,
  \<^verbatim>\<open>compare(a, b) < 0\<close>).  JavaScript numbers are modelled as real numbers (no NaN,
  no rounding).
\<close>

type_synonym 'a comparator = "'a \<Rightarrow> 'a \<Rightarrow> real"

text \<open>
  \<^verbatim>\<open>_heapifyUp\<close>: the item at \<open>idx\<close> is swapped with its parent
  \<open>\<lfloor>(idx - 1) / 2\<rfloor>\<close> while it compares strictly smaller.
\<close>

function heapifyUp_loop :: "'a comparator \<Rightarrow> 'a \<Rightarrow> 'a list \<Rightarrow> nat \<Rightarrow> 'a list" where
  "heapifyUp_loop cmp item xs idx =
     (if idx > 0 then
        (let parentIdx = (idx - 1) div 2;
             parent = xs ! parentIdx
         in if cmp item parent \<ge> 0 then xs
            else heapifyUp_loop cmp item (xs[parentIdx := item, idx := parent]) parentIdx)
      else xs)"
  by pat_completeness auto
termination
  by (relation "measure (\<lambda>(cmp, item, xs, idx). idx)") auto

definition heapifyUp :: "'a comparator \<Rightarrow> 'a list \<Rightarrow> 'a list" where
  "heapifyUp cmp xs = (let idx = length xs - 1; item = xs ! idx in heapifyUp_loop cmp item xs idx)"

text \<open>
  \<^verbatim>\<open>_heapifyDown\<close>: one round of the loop first selects \<open>smallest\<close> among
  \<open>idx\<close> and its children \<open>2 idx + 1\<close>, \<open>2 idx + 2\<close>, then swaps.
\<close>

definition smallest_child :: "'a comparator \<Rightarrow> 'a list \<Rightarrow> nat \<Rightarrow> nat" where
  "smallest_child cmp xs idx =
     (let len = length xs;
          leftIdx = 2 * idx + 1;
          rightIdx = 2 * idx + 2;
          smallest = idx;
          smallest = (if leftIdx < len \<and> cmp (xs ! leftIdx) (xs ! smallest) < 0 then leftIdx else smallest);
          smallest = (if rightIdx < len \<and> cmp (xs ! rightIdx) (xs ! smallest) < 0 then rightIdx else smallest)
      in smallest)"

lemma smallest_child_bounds:
  "smallest_child cmp xs idx \<noteq> idx \<Longrightarrow> idx < smallest_child cmp xs idx \<and> smallest_child cmp xs idx < length xs"
  by (auto simp: smallest_child_def Let_def split: if_splits)

function heapifyDown_loop :: "'a comparator \<Rightarrow> 'a \<Rightarrow> 'a list \<Rightarrow> nat \<Rightarrow> 'a list" where
  "heapifyDown_loop cmp item xs idx =
     (let smallest = smallest_child cmp xs idx
      in if smallest = idx then xs
         else heapifyDown_loop cmp item (xs[idx := xs ! smallest, smallest := item]) smallest)"
  by pat_completeness auto
termination
  by (relation "measure (\<lambda>(cmp, item, xs, idx). length xs - idx)")
     (auto dest: smallest_child_bounds)

definition heapifyDown :: "'a comparator \<Rightarrow> 'a list \<Rightarrow> 'a list" where
  "heapifyDown cmp xs = heapifyDown_loop cmp (xs ! 0) xs 0"

definition heap_push :: "'a comparator \<Rightarrow> 'a list \<Rightarrow> 'a \<Rightarrow> 'a list" where
  "heap_push cmp xs item = heapifyUp cmp (xs @ [item])"

definition heap_pop :: "'a comparator \<Rightarrow> 'a list \<Rightarrow> 'a option \<times> 'a list" where
  "heap_pop cmp xs =
     (if length xs = 0 then (None, xs)
      else (let top = xs ! 0;
                bottom = last xs;
                xs' = butlast xs
            in if length xs' > 0 then (Some top, heapifyDown cmp (xs'[0 := bottom]))
               else (Some top, xs')))"

declare heapifyUp_loop.simps [simp del] heapifyDown_loop.simps [simp del]


definition cmp_key :: "'a comparator \<Rightarrow> ('a \<Rightarrow> 'k::linorder) \<Rightarrow> bool" where
  "cmp_key cmp f = (\<forall>a b. (cmp a b < 0) = (f a < f b))"

definition heap_inv :: "('a \<Rightarrow> 'k::linorder) \<Rightarrow> 'a list \<Rightarrow> bool" where
  "heap_inv f xs = (\<forall>i. 0 < i \<and> i < length xs \<longrightarrow> f (xs ! ((i - 1) div 2)) \<le> f (xs ! i))"

definition except_up :: "('a \<Rightarrow> 'k::linorder) \<Rightarrow> 'a list \<Rightarrow> nat \<Rightarrow> bool" where
  "except_up f xs k = (\<forall>i. 0 < i \<and> i < length xs \<longrightarrow>
      (i \<noteq> k \<longrightarrow> f (xs ! ((i - 1) div 2)) \<le> f (xs ! i)) \<and>
      ((i - 1) div 2 = k \<and> 0 < k \<longrightarrow> f (xs ! ((k - 1) div 2)) \<le> f (xs ! i)))"

definition except_down :: "('a \<Rightarrow> 'k::linorder) \<Rightarrow> 'a list \<Rightarrow> nat \<Rightarrow> bool" where
  "except_down f xs k = (\<forall>i. 0 < i \<and> i < length xs \<longrightarrow>
      ((i - 1) div 2 \<noteq> k \<longrightarrow> f (xs ! ((i - 1) div 2)) \<le> f (xs ! i)) \<and>
      ((i - 1) div 2 = k \<and> 0 < k \<longrightarrow> f (xs ! ((k - 1) div 2)) \<le> f (xs ! i)))"

lemma parent_less: "0 < (i::nat) \<Longrightarrow> (i - 1) div 2 < i"
  by arith

lemma up_step:
  assumes inv: "except_up f xs k" and k: "0 < k" "k < length xs"
    and lt: "f (xs ! k) < f (xs ! ((k - 1) div 2))"
  shows "except_up f (xs[(k - 1) div 2 := xs ! k, k := xs ! ((k - 1) div 2)]) ((k - 1) div 2)"
  unfolding except_up_def
proof (intro allI impI conjI)
  let ?p = "(k - 1) div 2"
  let ?ys = "xs[?p := xs ! k, k := xs ! ?p]"
  fix i
  assume i: "0 < i \<and> i < length ?ys"
  have pk: "?p < k" using k parent_less by blast
  have pi: "(i - 1) div 2 < i" using i parent_less by blast
  have ilen: "i < length xs" using i by simp
  note I = inv[unfolded except_up_def, rule_format]
  { assume ne: "i \<noteq> ?p"
    show "f (?ys ! ((i - 1) div 2)) \<le> f (?ys ! i)"
    proof (cases "i = k")
      case True
      then show ?thesis using lt k pk by (simp add: nth_list_update)
    next
      case False
      show ?thesis
      proof (cases "(i - 1) div 2 = ?p")
        case True
        have "f (xs ! ?p) \<le> f (xs ! i)" using I[of i] i False True by simp
        then show ?thesis using True False ne lt k pk ilen by (simp add: nth_list_update)
      next
        case np: False
        show ?thesis
        proof (cases "(i - 1) div 2 = k")
          case True
          have "f (xs ! ?p) \<le> f (xs ! i)" using I[of i] i True k by simp
          then show ?thesis using True False ne k pk ilen by (simp add: nth_list_update)
        next
          case nk: False
          have "f (xs ! ((i - 1) div 2)) \<le> f (xs ! i)" using I[of i] i False by simp
          then show ?thesis using nk np False ne by (simp add: nth_list_update)
        qed
      qed
    qed }
  { assume a: "(i - 1) div 2 = ?p \<and> 0 < ?p"
    have ne: "i \<noteq> ?p" using a pi by auto
    have ppk: "(?p - 1) div 2 < ?p" using a parent_less by blast
    have pp: "f (xs ! ((?p - 1) div 2)) \<le> f (xs ! ?p)" using I[of ?p] a pk k by simp
    show "f (?ys ! ((?p - 1) div 2)) \<le> f (?ys ! i)"
    proof (cases "i = k")
      case True
      then show ?thesis using pp ppk pk k by (simp add: nth_list_update)
    next
      case False
      have "f (xs ! ?p) \<le> f (xs ! i)" using I[of i] i False a by simp
      then show ?thesis using pp ppk pk False ne by (simp add: nth_list_update)
    qed }
qed


lemma cmp_key_lt: "cmp_key cmp f \<Longrightarrow> (cmp a b < 0) = (f a < f b)"
  by (simp add: cmp_key_def)

lemma cmp_key_ge: "cmp_key cmp f \<Longrightarrow> (0 \<le> cmp a b) = (f b \<le> f a)"
  using cmp_key_lt[of cmp f a b] by (simp flip: not_less)

lemma children_iff: "0 < i \<and> (i - 1) div 2 = k \<longleftrightarrow> i = 2 * k + 1 \<or> i = 2 * k + (2::nat)"
  by arith

lemma heapifyUp_loop_correct:
  "cmp_key cmp f \<Longrightarrow> except_up f xs k \<Longrightarrow> k < length xs \<Longrightarrow> xs ! k = item \<Longrightarrow>
   heap_inv f (heapifyUp_loop cmp item xs k) \<and> mset (heapifyUp_loop cmp item xs k) = mset xs"
proof (induction cmp item xs k rule: heapifyUp_loop.induct)
  case (1 cmp item xs idx)
  let ?p = "(idx - 1) div 2"
  show ?case
  proof (cases "0 < idx")
    case False
    then have "heap_inv f xs" using "1.prems"(2) by (simp add: except_up_def heap_inv_def)
    then show ?thesis using False by (simp add: heapifyUp_loop.simps)
  next
    case pos: True
    have pk: "?p < idx" using pos parent_less by blast
    show ?thesis
    proof (cases "cmp item (xs ! ?p) \<ge> 0")
      case True
      then have "f (xs ! ?p) \<le> f item" using "1.prems"(1) by (simp add: cmp_key_ge)
      then have le: "f (xs ! ?p) \<le> f (xs ! idx)" using "1.prems"(4) by simp
      have "heap_inv f xs"
        unfolding heap_inv_def
      proof (intro allI impI)
        fix i assume "0 < i \<and> i < length xs"
        then show "f (xs ! ((i - 1) div 2)) \<le> f (xs ! i)"
          using "1.prems"(2) le by (cases "i = idx") (auto simp: except_up_def)
      qed
      then show ?thesis using True pos by (simp add: heapifyUp_loop.simps)
    next
      case False
      then have lt: "f (xs ! idx) < f (xs ! ?p)" using "1.prems"(1,4) by (simp add: cmp_key_ge)
      let ?ys = "xs[?p := item, idx := xs ! ?p]"
      have ex: "except_up f ?ys ?p"
        using up_step[OF "1.prems"(2) pos "1.prems"(3) lt] "1.prems"(4) by simp
      have len: "?p < length ?ys" using pk "1.prems"(3) by simp
      have at: "?ys ! ?p = item" using pk "1.prems"(3) by (simp add: nth_list_update)
      have IH: "heap_inv f (heapifyUp_loop cmp item ?ys ?p) \<and> mset (heapifyUp_loop cmp item ?ys ?p) = mset ?ys"
        using "1.IH"[OF pos refl refl False "1.prems"(1) ex len at] .
      have ms: "mset ?ys = mset xs"
        using mset_swap[of idx xs ?p] pk "1.prems"(3,4) by simp
      show ?thesis using IH ms False pos by (simp add: heapifyUp_loop.simps[of cmp item xs idx] Let_def)
    qed
  qed
qed

lemma heap_inv_snoc_except: "heap_inv f xs \<Longrightarrow> except_up f (xs @ [x]) (length xs)"
  unfolding heap_inv_def except_up_def
proof (intro allI impI conjI)
  fix i
  assume h: "\<forall>i. 0 < i \<and> i < length xs \<longrightarrow> f (xs ! ((i - 1) div 2)) \<le> f (xs ! i)"
    and i: "0 < i \<and> i < length (xs @ [x])"
  { assume "i \<noteq> length xs"
    then have il: "i < length xs" using i by simp
    then have "(i - 1) div 2 < length xs" using parent_less[of i] i by linarith
    then show "f ((xs @ [x]) ! ((i - 1) div 2)) \<le> f ((xs @ [x]) ! i)"
      using h i il by (simp add: nth_append) }
  { assume "(i - 1) div 2 = length xs \<and> 0 < length xs"
    then have "length xs < i" using parent_less[of i] i by linarith
    then have False using i by simp
    then show "f ((xs @ [x]) ! ((length xs - 1) div 2)) \<le> f ((xs @ [x]) ! i)" .. }
qed

lemma heap_push_correct:
  assumes "cmp_key cmp f" "heap_inv f xs"
  shows "heap_inv f (heap_push cmp xs x)" and "mset (heap_push cmp xs x) = add_mset x (mset xs)"
  using heapifyUp_loop_correct[OF assms(1) heap_inv_snoc_except[OF assms(2), of x], of x]
  by (simp_all add: heap_push_def heapifyUp_def)


lemma smallest_child_key:
  "cmp_key cmp f \<Longrightarrow> smallest_child cmp xs k =
     (let s1 = (if 2 * k + 1 < length xs \<and> f (xs ! (2 * k + 1)) < f (xs ! k) then 2 * k + 1 else k)
      in if 2 * k + 2 < length xs \<and> f (xs ! (2 * k + 2)) < f (xs ! s1) then 2 * k + 2 else s1)"
  by (simp add: smallest_child_def Let_def cmp_key_lt[of cmp f])

lemma smallest_child_self:
  assumes "cmp_key cmp f" "smallest_child cmp xs k = k" "0 < i" "(i - 1) div 2 = k" "i < length xs"
  shows "f (xs ! k) \<le> f (xs ! i)"
proof -
  from assms(3,4) have c: "i = 2 * k + 1 \<or> i = 2 * k + 2" using children_iff[of i k] by blast
  have e: "(let s1 = (if 2 * k + 1 < length xs \<and> f (xs ! (2 * k + 1)) < f (xs ! k) then 2 * k + 1 else k)
      in if 2 * k + 2 < length xs \<and> f (xs ! (2 * k + 2)) < f (xs ! s1) then 2 * k + 2 else s1) = k"
    using smallest_child_key[OF assms(1), of xs k] assms(2) by simp
  from c show ?thesis
  proof
    assume "i = 2 * k + 1"
    then show ?thesis using e assms(5) by (simp add: Let_def split: if_splits)
  next
    assume "i = 2 * k + 2"
    then show ?thesis using e assms(5) by (simp add: Let_def split: if_splits)
  qed
qed

lemma smallest_child_other:
  assumes "cmp_key cmp f" "smallest_child cmp xs k = s" "s \<noteq> k"
  shows "0 < s" "(s - 1) div 2 = k" "s < length xs" "f (xs ! s) < f (xs ! k)"
    and "\<And>i. 0 < i \<Longrightarrow> (i - 1) div 2 = k \<Longrightarrow> i < length xs \<Longrightarrow> f (xs ! s) \<le> f (xs ! i)"
proof -
  have e: "(let s1 = (if 2 * k + 1 < length xs \<and> f (xs ! (2 * k + 1)) < f (xs ! k) then 2 * k + 1 else k)
      in if 2 * k + 2 < length xs \<and> f (xs ! (2 * k + 2)) < f (xs ! s1) then 2 * k + 2 else s1) = s"
    using smallest_child_key[OF assms(1), of xs k] assms(2) by simp
  have sc: "s = 2 * k + 1 \<or> s = 2 * k + 2"
    using e assms(3) by (simp add: Let_def split: if_splits)
  then show "0 < s" by auto
  show "(s - 1) div 2 = k" using sc children_iff[of s k] by blast
  show "s < length xs" using assms(2,3) smallest_child_bounds[of cmp xs k] by simp
  show "f (xs ! s) < f (xs ! k)" using e assms(3)
    by (simp add: Let_def split: if_splits)
  fix i assume "0 < i" "(i - 1) div 2 = k" and il: "i < length xs"
  then have c: "i = 2 * k + 1 \<or> i = 2 * k + 2" using children_iff[of i k] by blast
  from c show "f (xs ! s) \<le> f (xs ! i)"
  proof
    assume "i = 2 * k + 1"
    then show ?thesis using e il assms(3) by (simp add: Let_def split: if_splits)
  next
    assume "i = 2 * k + 2"
    then show ?thesis using e il assms(3) by (simp add: Let_def split: if_splits)
  qed
qed

lemma down_step:
  assumes inv: "except_down f xs k"
    and s: "0 < s" "(s - 1) div 2 = k" "s < length xs" "f (xs ! s) < f (xs ! k)"
    and sm: "\<And>i. 0 < i \<Longrightarrow> (i - 1) div 2 = k \<Longrightarrow> i < length xs \<Longrightarrow> f (xs ! s) \<le> f (xs ! i)"
  shows "except_down f (xs[k := xs ! s, s := xs ! k]) s"
  unfolding except_down_def
proof (intro allI impI conjI)
  let ?ys = "xs[k := xs ! s, s := xs ! k]"
  fix i
  assume i: "0 < i \<and> i < length ?ys"
  have ks: "k < s" using s(1,2) parent_less by blast
  have klen: "k < length xs" using ks s(3) by simp
  have pi: "(i - 1) div 2 < i" using i parent_less by blast
  have ilen: "i < length xs" using i by simp
  note I = inv[unfolded except_down_def, rule_format]
  { assume ne: "(i - 1) div 2 \<noteq> s"
    show "f (?ys ! ((i - 1) div 2)) \<le> f (?ys ! i)"
    proof (cases "i = s")
      case True
      then show ?thesis using s ks klen by (simp add: nth_list_update)
    next
      case nis: False
      show ?thesis
      proof (cases "i = k")
        case True
        then have kpos: "0 < k" using i by simp
        have pkk: "(k - 1) div 2 < k" using kpos parent_less by blast
        have "f (xs ! ((k - 1) div 2)) \<le> f (xs ! s)" using I[of s] s kpos by simp
        then show ?thesis using True nis pkk ks klen by (simp add: nth_list_update)
      next
        case nik: False
        show ?thesis
        proof (cases "(i - 1) div 2 = k")
          case True
          have "f (xs ! s) \<le> f (xs ! i)" using sm[of i] i True ilen by simp
          then show ?thesis using True nis nik ks klen by (simp add: nth_list_update)
        next
          case False
          have "f (xs ! ((i - 1) div 2)) \<le> f (xs ! i)" using I[of i] i False by simp
          then show ?thesis using False ne nis nik by (simp add: nth_list_update)
        qed
      qed
    qed }
  { assume a: "(i - 1) div 2 = s \<and> 0 < s"
    have si: "s < i" using a pi by simp
    have "f (xs ! s) \<le> f (xs ! i)" using I[of i] i a ks by simp
    then show "f (?ys ! ((s - 1) div 2)) \<le> f (?ys ! i)"
      using s(2) si ks klen by (simp add: nth_list_update) }
qed

lemma heapifyDown_loop_stop:
  "smallest_child cmp xs idx = idx \<Longrightarrow> heapifyDown_loop cmp item xs idx = xs"
  by (subst heapifyDown_loop.simps) (simp add: Let_def)

lemma heapifyDown_loop_step:
  "smallest_child cmp xs idx \<noteq> idx \<Longrightarrow>
   heapifyDown_loop cmp item xs idx =
     heapifyDown_loop cmp item (xs[idx := xs ! smallest_child cmp xs idx, smallest_child cmp xs idx := item])
       (smallest_child cmp xs idx)"
  by (subst heapifyDown_loop.simps) (simp add: Let_def)

lemma heapifyDown_loop_correct:
  "cmp_key cmp f \<Longrightarrow> except_down f xs k \<Longrightarrow> k < length xs \<Longrightarrow> xs ! k = item \<Longrightarrow>
   heap_inv f (heapifyDown_loop cmp item xs k) \<and> mset (heapifyDown_loop cmp item xs k) = mset xs"
proof (induction cmp item xs k rule: heapifyDown_loop.induct)
  case (1 cmp item xs idx)
  let ?s = "smallest_child cmp xs idx"
  show ?case
  proof (cases "?s = idx")
    case True
    have hx: "heap_inv f xs"
      unfolding heap_inv_def
    proof (intro allI impI)
      fix i assume i: "0 < i \<and> i < length xs"
      show "f (xs ! ((i - 1) div 2)) \<le> f (xs ! i)"
      proof (cases "(i - 1) div 2 = idx")
        case p: True
        then show ?thesis using smallest_child_self[OF "1.prems"(1) True, of i] i by simp
      next
        case False
        then show ?thesis using "1.prems"(2) i by (simp add: except_down_def)
      qed
    qed
    have st: "heapifyDown_loop cmp item xs idx = xs" using True by (rule heapifyDown_loop_stop)
    have g: "heap_inv f xs \<and> mset xs = mset xs" using hx by simp
    show ?thesis using g st by (simp only:)
  next
    case False
    note S = smallest_child_other[OF "1.prems"(1) refl False]
    let ?ys = "xs[idx := xs ! ?s, ?s := item]"
    have ks: "idx < ?s" using parent_less[OF S(1)] unfolding S(2) .
    have ex: "except_down f ?ys ?s"
      using down_step[OF "1.prems"(2) S(1,2,3,4) S(5)] "1.prems"(4) by simp
    have len: "?s < length ?ys" using S(3) by simp
    have at: "?ys ! ?s = item" using S(3) by simp
    have IH: "heap_inv f (heapifyDown_loop cmp item ?ys ?s) \<and> mset (heapifyDown_loop cmp item ?ys ?s) = mset ?ys"
      using "1.IH"[OF refl False "1.prems"(1) ex len at] .
    have ms: "mset ?ys = mset xs"
      using mset_swap[of ?s xs idx] S(3) "1.prems"(3,4) by simp
    have st: "heapifyDown_loop cmp item xs idx = heapifyDown_loop cmp item ?ys ?s"
      using False by (rule heapifyDown_loop_step)
    show ?thesis unfolding st using IH ms by simp
  qed
qed

lemma heap_inv_root_le:
  assumes "heap_inv f xs" "i < length xs"
  shows "f (xs ! 0) \<le> f (xs ! i)"
  using assms(2)
proof (induction i rule: less_induct)
  case (less i)
  show ?case
  proof (cases "i = 0")
    case True then show ?thesis by simp
  next
    case False
    then have p: "(i - 1) div 2 < i" using parent_less by simp
    have "f (xs ! 0) \<le> f (xs ! ((i - 1) div 2))" using less.IH[OF p] p less.prems by simp
    moreover have "f (xs ! ((i - 1) div 2)) \<le> f (xs ! i)"
      using assms(1) False less.prems by (simp add: heap_inv_def)
    ultimately show ?thesis by simp
  qed
qed

lemma heap_inv_min:
  assumes "heap_inv f xs" "x \<in> set xs"
  shows "f (xs ! 0) \<le> f x"
  using assms heap_inv_root_le by (metis in_set_conv_nth)

lemma heap_pop_empty: "heap_pop cmp [] = (None, [])"
  by (simp add: heap_pop_def)

lemma heap_pop_correct:
  assumes ck: "cmp_key cmp f" and hi: "heap_inv f xs" and ne: "xs \<noteq> []"
  shows "\<exists>rest. heap_pop cmp xs = (Some (xs ! 0), rest) \<and> heap_inv f rest \<and>
           mset xs = add_mset (xs ! 0) (mset rest)"
proof (cases "butlast xs = []")
  case True
  then have "xs = [xs ! 0]" using ne by (cases xs) (auto split: if_splits)
  then have "heap_pop cmp xs = (Some (xs ! 0), []) \<and> mset xs = add_mset (xs ! 0) {#}"
    using ne True by (simp add: heap_pop_def Let_def)
  then show ?thesis by (auto simp: heap_inv_def)
next
  case False
  let ?b = "butlast xs"
  let ?ys = "?b[0 := last xs]"
  have lenb: "length ?b = length xs - 1" by simp
  have pos: "0 < length ?b" using False by (simp del: length_butlast)
  have ex: "except_down f ?ys 0"
    unfolding except_down_def
  proof (intro allI impI conjI)
    fix i assume i: "0 < i \<and> i < length ?ys"
    { assume p: "(i - 1) div 2 \<noteq> 0"
      have il: "i < length xs" using i by auto
      have pl: "(i - 1) div 2 < i" using i parent_less by blast
      have "f (xs ! ((i - 1) div 2)) \<le> f (xs ! i)" using hi i il by (simp add: heap_inv_def)
      then show "f (?ys ! ((i - 1) div 2)) \<le> f (?ys ! i)"
        using i p pl by (simp add: nth_butlast) }
    { assume "(i - 1) div 2 = 0 \<and> (0::nat) < 0"
      then show "f (?ys ! ((0 - 1) div 2)) \<le> f (?ys ! i)" by simp }
  qed
  have R: "heap_inv f (heapifyDown cmp ?ys) \<and> mset (heapifyDown cmp ?ys) = mset ?ys"
    unfolding heapifyDown_def
    using heapifyDown_loop_correct[OF ck ex _ refl] pos by simp
  have "mset (?b @ [last xs]) = mset xs" by (simp only: append_butlast_last_id[OF ne])
  then have xs: "mset xs = add_mset (last xs) (mset ?b)" by simp
  have "mset ?ys = add_mset (last xs) (mset ?b - {#?b ! 0#})"
    using pos by (simp add: mset_update)
  moreover have "?b ! 0 = xs ! 0" using pos by (simp add: nth_butlast)
  moreover have "xs ! 0 \<in># mset ?b" using pos \<open>?b ! 0 = xs ! 0\<close> by (metis nth_mem_mset)
  ultimately have "mset xs = add_mset (xs ! 0) (mset ?ys)" using xs by simp
  moreover have "heap_pop cmp xs = (Some (xs ! 0), heapifyDown cmp ?ys)"
    using ne pos False by (simp add: heap_pop_def Let_def)
  ultimately show ?thesis using R by simp
qed

section \<open>The simulation kernel\<close>

subsection \<open>Values, errors and objects\<close>

text \<open>
  The values that the kernel stores in \<^verbatim>\<open>_value\<close> and throws.  An \<^verbatim>\<open>Error\<close>
  object is \<open>ErrorObj\<close> of the error it reports; the errors are those the kernel itself
  raises (with the payload its message is built from), \<open>UserError\<close> for an
  \<^verbatim>\<open>Error\<close> made by user code, and \<open>NullDereference\<close> for the run-time's own
  TypeError when a property of \<^verbatim>\<open>null\<close> or \<^verbatim>\<open>undefined\<close> is used.  Objects are
  kept in stores and referred to by their index (\<open>EventRef\<close>).
\<close>

datatype jsval =
    Undefined
  | Null
  | Str string
  | EventRef nat
  | ConditionValue "nat list"
  | ErrorObj error
and error =
    UserError string
  | AlreadyTriggered nat
  | NotAnException jsval
  | NotYetAvailable nat
  | MixedEnvironments
  | InvalidUntil
  | InvalidYield jsval
  | NotAGenerator
  | NegativeDelay real
  | InvalidAmount real
  | InvalidCapacity
  | EmptySchedule
  | StopSimulation jsval
  | NullDereference

text \<open>The sentinel string with which the constructor of \<^verbatim>\<open>Event\<close> fills \<^verbatim>\<open>_value\<close>.\<close>

definition PENDING :: jsval where
  "PENDING = Str ''PENDING''"

text \<open>\<^verbatim>\<open>exception instanceof Error\<close>.\<close>

fun instanceof_Error :: "jsval \<Rightarrow> bool" where
  "instanceof_Error (ErrorObj e) = True"
| "instanceof_Error v = False"

datatype Priority = NORMAL | URGENT

record QueueItem =
  time :: real
  priority :: nat
  eid :: nat
  event :: nat

text \<open>
  A callback is a closure.  The closures the kernel itself registers are listed by name
  with the object they are bound to (\<^verbatim>\<open>this._check.bind(this)\<close> is \<open>Check self\<close>);
  a closure of user code is \<open>UserCallback c\<close>, run by the \<open>user_call\<close> of the
  program; \<open>NonFunction\<close> is an array entry that fails the test
  \<^verbatim>\<open>typeof callback === 'function'\<close>.
\<close>

datatype 'c Callback =
    Check nat
  | BuildValue nat
  | Resume nat
  | TriggerGet nat
  | TriggerPut nat
  | StopSimulation_callback
  | UserCallback 'c
  | NonFunction jsval

text \<open>
  The fields that the subclasses of \<^verbatim>\<open>Event\<close> add: \<^verbatim>\<open>Timeout._delay\<close>;
  \<^verbatim>\<open>Process._generator\<close> and \<^verbatim>\<open>Process._target\<close>; \<^verbatim>\<open>resource\<close>,
  \<^verbatim>\<open>amount\<close> and \<^verbatim>\<open>proc\<close> of the two resource events.
\<close>

datatype 'g EventKind =
    BaseEvent
  | TimeoutEvent real
  | InitializeEvent
  | ProcessEvent 'g "nat option"
  | GetResourceEvent nat real "nat option"
  | PutResourceEvent nat real "nat option"

text \<open>
  The fields of \<^verbatim>\<open>Event\<close>.  \<^verbatim>\<open>callbacks\<close> is \<open>None\<close> for \<^verbatim>\<open>null\<close> and otherwise
  the index of the callback array in the store of arrays; \<^verbatim>\<open>_ok\<close> is \<open>None\<close> for
  \<^verbatim>\<open>undefined\<close>; \<open>value'\<close> and \<open>count'\<close> are \<^verbatim>\<open>_value\<close> and \<^verbatim>\<open>_count\<close>.
\<close>

record 'g Event =
  env :: nat
  callbacks :: "nat option"
  ok :: "bool option"
  defused :: bool
  value' :: jsval
  scheduled :: bool
  evaluate :: "(nat list \<Rightarrow> nat \<Rightarrow> bool) option"
  events :: "nat list"
  count' :: nat
  kind :: "'g EventKind"

text \<open>\<^verbatim>\<open>BaseResource\<close> with the \<^verbatim>\<open>users\<close> array of \<^verbatim>\<open>Resource\<close>.\<close>

record Resource =
  capacity :: real
  users :: "nat list"
  putQueue :: "nat list"
  getQueue :: "nat list"

text \<open>
  The state of a simulation: the fields of its \<^verbatim>\<open>Environment\<close> (\<^verbatim>\<open>_now\<close>, the
  item array of \<^verbatim>\<open>_queue\<close>, \<^verbatim>\<open>_eid\<close>, \<^verbatim>\<open>activeProcess\<close>) and the stores of the
  objects created so far: events, callback arrays and resources, each with the number
  of objects allocated.
\<close>

record ('g, 'c) World =
  env_id :: nat
  now :: real
  queue :: "QueueItem list"
  eid' :: nat
  activeProcess :: "nat option"
  event_heap :: "nat \<Rightarrow> 'g Event"
  event_count :: nat
  array_heap :: "nat \<Rightarrow> 'c Callback list"
  array_count :: nat
  resource_heap :: "nat \<Rightarrow> Resource"
  resource_count :: nat

text \<open>
  A generator object is a state \<open>'g\<close> of the coroutine together with the two functions
  \<^verbatim>\<open>next(v)\<close> and \<^verbatim>\<open>throw(e)\<close>, which run the coroutine up to its next
  \<^verbatim>\<open>yield\<close>, its \<^verbatim>\<open>return\<close> or an uncaught exception; the code of the coroutine may
  change the world (create events, request resources).  The program also gives the
  meaning of the callbacks of user code.
\<close>

datatype GenResult = Yield jsval | Return jsval | Throw jsval

record ('g, 'c) Program =
  gen_next :: "'g \<Rightarrow> jsval \<Rightarrow> ('g, 'c) World \<Rightarrow> GenResult \<times> 'g \<times> ('g, 'c) World"
  gen_throw :: "'g \<Rightarrow> jsval \<Rightarrow> ('g, 'c) World \<Rightarrow> GenResult \<times> 'g \<times> ('g, 'c) World"
  user_call :: "'c \<Rightarrow> nat \<Rightarrow> ('g, 'c) World \<Rightarrow> (jsval + unit) \<times> ('g, 'c) World"

text \<open>
  A method returns normally (\<open>Inr\<close>) or throws a value (\<open>Inl\<close>); either way the changes
  it made to the world so far remain.
\<close>

type_synonym ('g, 'c) completion = "(jsval + unit) \<times> ('g, 'c) World"

definition update_event :: "nat \<Rightarrow> ('g Event \<Rightarrow> 'g Event) \<Rightarrow> ('g, 'c) World \<Rightarrow> ('g, 'c) World" where
  "update_event i f w = w\<lparr>event_heap := (event_heap w)(i := f (event_heap w i))\<rparr>"

definition push_callback :: "nat \<Rightarrow> 'c Callback \<Rightarrow> ('g, 'c) World \<Rightarrow> ('g, 'c) World" where
  "push_callback a cb w = w\<lparr>array_heap := (array_heap w)(a := array_heap w a @ [cb])\<rparr>"

definition update_resource :: "nat \<Rightarrow> (Resource \<Rightarrow> Resource) \<Rightarrow> ('g, 'c) World \<Rightarrow> ('g, 'c) World" where
  "update_resource r f w = w\<lparr>resource_heap := (resource_heap w)(r := f (resource_heap w r))\<rparr>"

subsection \<open>Environment: construction and schedule\<close>

text \<open>The comparator that the constructor of \<^verbatim>\<open>Environment\<close> gives to its heap.\<close>

definition queue_compare :: "QueueItem comparator" where
  "queue_compare a b =
     (if time a \<noteq> time b then time a - time b
      else if priority a \<noteq> priority b then real (priority a) - real (priority b)
      else real (eid a) - real (eid b))"

definition new_Environment :: "real \<Rightarrow> ('g, 'c) World" where
  "new_Environment initialTime =
     \<lparr>env_id = 0, now = initialTime, queue = [], eid' = 0, activeProcess = None,
      event_heap = (\<lambda>_. \<lparr>env = 0, callbacks = None, ok = None, defused = False, value' = Undefined,
                             scheduled = False, evaluate = None, events = [], count' = 0, kind = BaseEvent\<rparr>),
      event_count = 0,
      array_heap = (\<lambda>_. []), array_count = 0,
      resource_heap = (\<lambda>_. \<lparr>capacity = 0, users = [], putQueue = [], getQueue = []\<rparr>),
      resource_count = 0\<rparr>"

definition schedule :: "nat \<Rightarrow> Priority \<Rightarrow> real \<Rightarrow> ('g, 'c) World \<Rightarrow> ('g, 'c) World" where
  "schedule ev prio delay w =
     (let scheduledTime = now w + delay;
          w1 = w\<lparr>queue := heap_push queue_compare (queue w)
                    \<lparr>time = scheduledTime, priority = (if prio = URGENT then 0 else 1),
                     eid = eid' w, event = ev\<rparr>,
                 eid' := eid' w + 1\<rparr>
      in update_event ev (\<lambda>e. e\<lparr>scheduled := True\<rparr>) w1)"

subsection \<open>Event\<close>

text \<open>
  The field initialisation of the constructor of \<^verbatim>\<open>Event\<close>, before the test on
  \<^verbatim>\<open>this._events.length\<close>; the subclasses call it as \<^verbatim>\<open>super(env)\<close>.
\<close>

definition alloc_Event :: "(nat list \<Rightarrow> nat \<Rightarrow> bool) option \<Rightarrow> nat list \<Rightarrow> ('g, 'c) World \<Rightarrow> nat \<times> ('g, 'c) World" where
  "alloc_Event ev evs w =
     (let i = event_count w; a = array_count w
      in (i, w\<lparr>event_heap := (event_heap w)(i :=
                  \<lparr>env = env_id w, callbacks = Some a, ok = None, defused = False, value' = PENDING,
                   scheduled = False, evaluate = ev, events = evs, count' = 0, kind = BaseEvent\<rparr>),
                event_count := i + 1,
                array_heap := (array_heap w)(a := []),
                array_count := a + 1\<rparr>))"

definition triggered :: "'g Event \<Rightarrow> bool" where
  "triggered e = (value' e \<noteq> PENDING)"


text \<open>The getters \<^verbatim>\<open>ok\<close> and \<^verbatim>\<open>value\<close>.\<close>

definition get_ok :: "nat \<Rightarrow> ('g, 'c) World \<Rightarrow> jsval + bool option" where
  "get_ok i w = (if \<not> triggered (event_heap w i) then Inl (ErrorObj (NotYetAvailable i))
                 else Inr (ok (event_heap w i)))"

definition get_value :: "nat \<Rightarrow> ('g, 'c) World \<Rightarrow> jsval + jsval" where
  "get_value i w = (if value' (event_heap w i) = PENDING then Inl (ErrorObj (NotYetAvailable i))
                    else Inr (value' (event_heap w i)))"

definition trigger :: "nat \<Rightarrow> nat \<Rightarrow> ('g, 'c) World \<Rightarrow> ('g, 'c) World" where
  "trigger self src w =
     (let w1 = update_event self (\<lambda>e. e\<lparr>ok := ok (event_heap w src), value' := value' (event_heap w src)\<rparr>) w
      in if \<not> scheduled (event_heap w1 self)
         then update_event self (\<lambda>e. e\<lparr>scheduled := True\<rparr>) (schedule self NORMAL 0 w1)
         else w1)"

definition succeed :: "nat \<Rightarrow> jsval \<Rightarrow> ('g, 'c) World \<Rightarrow> ('g, 'c) completion" where
  "succeed self v w =
     (if value' (event_heap w self) \<noteq> PENDING then (Inl (ErrorObj (AlreadyTriggered self)), w)
      else let w1 = update_event self (\<lambda>e. e\<lparr>ok := Some True, value' := v\<rparr>) w
           in if \<not> scheduled (event_heap w1 self)
              then (Inr (), update_event self (\<lambda>e. e\<lparr>scheduled := True\<rparr>) (schedule self NORMAL 0 w1))
              else (Inr (), w1))"

definition fail :: "nat \<Rightarrow> jsval \<Rightarrow> ('g, 'c) World \<Rightarrow> ('g, 'c) completion" where
  "fail self exception w =
     (if value' (event_heap w self) \<noteq> PENDING then (Inl (ErrorObj (AlreadyTriggered self)), w)
      else if \<not> instanceof_Error exception then (Inl (ErrorObj (NotAnException exception)), w)
      else let w1 = update_event self (\<lambda>e. e\<lparr>ok := Some False, value' := exception\<rparr>) w
           in if \<not> scheduled (event_heap w1 self)
              then (Inr (), update_event self (\<lambda>e. e\<lparr>scheduled := True\<rparr>) (schedule self NORMAL 0 w1))
              else (Inr (), w1))"

definition allEvents :: "nat list \<Rightarrow> nat \<Rightarrow> bool" where
  "allEvents evs n = (length evs = n)"

definition anyEvents :: "nat list \<Rightarrow> nat \<Rightarrow> bool" where
  "anyEvents evs n = (n > 0 \<or> length evs = 0)"

definition check :: "nat \<Rightarrow> nat \<Rightarrow> ('g, 'c) World \<Rightarrow> ('g, 'c) completion" where
  "check self ev w =
     (if value' (event_heap w self) \<noteq> PENDING then (Inr (), w)
      else let w1 = update_event self (\<lambda>e. e\<lparr>count' := count' e + 1\<rparr>) w
           in if ok (event_heap w1 ev) \<noteq> Some True
              then fail self (value' (event_heap w1 ev)) (update_event ev (\<lambda>e. e\<lparr>defused := True\<rparr>) w1)
              else (case evaluate (event_heap w1 self) of
                      None \<Rightarrow> (Inl (ErrorObj NullDereference), w1)
                    | Some f \<Rightarrow>
                        if f (events (event_heap w1 self)) (count' (event_heap w1 self))
                        then succeed self (ConditionValue []) w1
                        else (Inr (), w1)))"

text \<open>
  \<^verbatim>\<open>_removeCheckCallbacks\<close> looks in each child's callbacks for
  \<^verbatim>\<open>this._check.bind(this)\<close>.  Every evaluation of \<^verbatim>\<open>bind\<close> makes a new function
  object, which is identical to no element of any array, so \<^verbatim>\<open>includes\<close> is false
  for every child and nothing is changed.
\<close>

definition removeCheckCallbacks :: "nat \<Rightarrow> ('g, 'c) World \<Rightarrow> ('g, 'c) World" where
  "removeCheckCallbacks self w = w"

definition populateValue :: "nat \<Rightarrow> ('g, 'c) World \<Rightarrow> nat list" where
  "populateValue self w = filter (\<lambda>ev. callbacks (event_heap w ev) = None) (events (event_heap w self))"

definition buildValue :: "nat \<Rightarrow> nat \<Rightarrow> ('g, 'c) World \<Rightarrow> ('g, 'c) World" where
  "buildValue self ev w =
     (let w1 = removeCheckCallbacks self w
      in if ok (event_heap w1 ev) = Some True
         then update_event self (\<lambda>e. e\<lparr>value' := ConditionValue (populateValue self w1)\<rparr>) w1
         else w1)"

fun initializeCondition_loop :: "nat \<Rightarrow> nat list \<Rightarrow> ('g, 'c) World \<Rightarrow> ('g, 'c) completion" where
  "initializeCondition_loop self [] w = (Inr (), w)"
| "initializeCondition_loop self (ev # rest) w =
     (if env (event_heap w ev) \<noteq> env (event_heap w self) then (Inl (ErrorObj MixedEnvironments), w)
      else (case callbacks (event_heap w ev) of
              None \<Rightarrow> (case check self ev w of
                          (Inl x, w') \<Rightarrow> (Inl x, w')
                        | (Inr _, w') \<Rightarrow> initializeCondition_loop self rest w')
            | Some a \<Rightarrow> initializeCondition_loop self rest (push_callback a (Check self) w)))"

definition initializeCondition :: "nat \<Rightarrow> ('g, 'c) World \<Rightarrow> ('g, 'c) completion" where
  "initializeCondition self w =
     (case initializeCondition_loop self (events (event_heap w self)) w of
        (Inl x, w') \<Rightarrow> (Inl x, w')
      | (Inr _, w') \<Rightarrow>
          (case callbacks (event_heap w' self) of
             None \<Rightarrow> (Inl (ErrorObj NullDereference), w')
           | Some a \<Rightarrow> (Inr (), push_callback a (BuildValue self) w')))"

text \<open>The constructor of \<^verbatim>\<open>Event\<close>.\<close>

definition new_Event :: "(nat list \<Rightarrow> nat \<Rightarrow> bool) option \<Rightarrow> nat list \<Rightarrow> ('g, 'c) World \<Rightarrow> (jsval + nat) \<times> ('g, 'c) World" where
  "new_Event ev evs w =
     (case alloc_Event ev evs w of (self, w1) \<Rightarrow>
        if length (events (event_heap w1 self)) > 0
        then (case initializeCondition self w1 of
                (Inl x, w2) \<Rightarrow> (Inl x, w2)
              | (Inr _, w2) \<Rightarrow> (Inr self, w2))
        else (Inr self, w1))"

definition and_event :: "nat \<Rightarrow> nat \<Rightarrow> ('g, 'c) World \<Rightarrow> (jsval + nat) \<times> ('g, 'c) World" where
  "and_event self other w = new_Event (Some allEvents) [self, other] w"

definition or_event :: "nat \<Rightarrow> nat \<Rightarrow> ('g, 'c) World \<Rightarrow> (jsval + nat) \<times> ('g, 'c) World" where
  "or_event self other w = new_Event (Some anyEvents) [self, other] w"

definition new_Timeout :: "real \<Rightarrow> jsval \<Rightarrow> ('g, 'c) World \<Rightarrow> (jsval + nat) \<times> ('g, 'c) World" where
  "new_Timeout delay v w =
     (case alloc_Event None [] w of (self, w1) \<Rightarrow>
        if delay < 0 then (Inl (ErrorObj (NegativeDelay delay)), w1)
        else (Inr self,
              schedule self NORMAL delay
                (update_event self (\<lambda>e. e\<lparr>kind := TimeoutEvent delay, ok := Some True, value' := v\<rparr>) w1)))"

text \<open>\<^verbatim>\<open>StopSimulation.callback\<close> (errors/StopSimulation.ts).\<close>

definition StopSimulation_callback_fn :: "nat \<Rightarrow> ('g, 'c) World \<Rightarrow> ('g, 'c) completion" where
  "StopSimulation_callback_fn ev w =
     (case get_ok ev w of
        Inl x \<Rightarrow> (Inl x, w)
      | Inr b \<Rightarrow> if b = Some True then (Inl (ErrorObj (StopSimulation (value' (event_heap w ev)))), w)
                 else (Inl (value' (event_heap w ev)), w))"


subsection \<open>Resource\<close>

definition new_Resource :: "real \<Rightarrow> ('g, 'c) World \<Rightarrow> (jsval + nat) \<times> ('g, 'c) World" where
  "new_Resource cap w =
     (if cap \<le> 0 then (Inl (ErrorObj InvalidCapacity), w)
      else let r = resource_count w
           in (Inr r, w\<lparr>resource_heap := (resource_heap w)(r :=
                           \<lparr>capacity = cap, users = [], putQueue = [], getQueue = []\<rparr>),
                         resource_count := r + 1\<rparr>))"

text \<open>
  The two counting loops \<^verbatim>\<open>for (let i = 0; i < event.amount; i++)\<close> of \<^verbatim>\<open>_doGet\<close>
  and \<^verbatim>\<open>_doPut\<close>; \<^verbatim>\<open>pop\<close> on an empty array leaves it empty.
\<close>

function users_push_loop :: "real \<Rightarrow> real \<Rightarrow> nat list \<Rightarrow> nat list" where
  "users_push_loop i amount us = (if i < amount then users_push_loop (i + 1) amount (us @ [1]) else us)"
  by pat_completeness auto
termination
  by (relation "measure (\<lambda>(i, amount, us). nat \<lceil>amount - i\<rceil>)") (auto, linarith)

function users_pop_loop :: "real \<Rightarrow> real \<Rightarrow> nat list \<Rightarrow> nat list" where
  "users_pop_loop i amount us = (if i < amount then users_pop_loop (i + 1) amount (butlast us) else us)"
  by pat_completeness auto
termination
  by (relation "measure (\<lambda>(i, amount, us). nat \<lceil>amount - i\<rceil>)") (auto, linarith)

declare users_push_loop.simps [simp del] users_pop_loop.simps [simp del]

text \<open>\<^verbatim>\<open>event.amount\<close>, undefined (\<open>None\<close>) on an event that is no resource event; a comparison with \<^verbatim>\<open>undefined\<close> is false.\<close>

fun amount :: "'g EventKind \<Rightarrow> real option" where
  "amount (GetResourceEvent r a p) = Some a"
| "amount (PutResourceEvent r a p) = Some a"
| "amount k = None"

definition doGet :: "nat \<Rightarrow> nat \<Rightarrow> ('g, 'c) World \<Rightarrow> (jsval + bool) \<times> ('g, 'c) World" where
  "doGet r ev w =
     (let available = capacity (resource_heap w r) - real (length (users (resource_heap w r)))
      in case amount (kind (event_heap w ev)) of
           None \<Rightarrow> (Inr False, w)
         | Some n \<Rightarrow>
             if available \<ge> n
             then (case succeed ev Null (update_resource r (\<lambda>res. res\<lparr>users := users_push_loop 0 n (users res)\<rparr>) w) of
                     (Inl x, w') \<Rightarrow> (Inl x, w')
                   | (Inr _, w') \<Rightarrow> (Inr True, w'))
             else (Inr False, w))"

definition doPut :: "nat \<Rightarrow> nat \<Rightarrow> ('g, 'c) World \<Rightarrow> (jsval + bool) \<times> ('g, 'c) World" where
  "doPut r ev w =
     (case amount (kind (event_heap w ev)) of
        None \<Rightarrow> (Inr False, w)
      | Some n \<Rightarrow>
          if real (length (users (resource_heap w r))) \<ge> n
          then (case succeed ev Null (update_resource r (\<lambda>res. res\<lparr>users := users_pop_loop 0 n (users res)\<rparr>) w) of
                  (Inl x, w') \<Rightarrow> (Inl x, w')
                | (Inr _, w') \<Rightarrow> (Inr True, w'))
          else (Inr False, w))"

text \<open>\<^verbatim>\<open>splice(idx, 1)\<close>.\<close>

definition splice1 :: "nat \<Rightarrow> 'a list \<Rightarrow> 'a list" where
  "splice1 idx xs = take idx xs @ drop (idx + 1) xs"

lemma succeed_resource_heap: "resource_heap (snd (succeed ev v w)) = resource_heap w"
  by (simp add: succeed_def schedule_def update_event_def Let_def)

lemma doGet_getQueue: "doGet r ev w = (res, w') \<Longrightarrow> getQueue (resource_heap w' r) = getQueue (resource_heap w r)"
  using succeed_resource_heap[of ev Null "update_resource r (\<lambda>res. res\<lparr>users := users_push_loop 0 (the (amount (kind (event_heap w ev)))) (users res)\<rparr>) w"]
  by (auto simp: doGet_def Let_def update_resource_def split: option.splits if_splits prod.splits sum.splits)

lemma doPut_putQueue: "doPut r ev w = (res, w') \<Longrightarrow> putQueue (resource_heap w' r) = putQueue (resource_heap w r)"
  using succeed_resource_heap[of ev Null "update_resource r (\<lambda>res. res\<lparr>users := users_pop_loop 0 (the (amount (kind (event_heap w ev)))) (users res)\<rparr>) w"]
  by (auto simp: doPut_def Let_def update_resource_def split: option.splits if_splits prod.splits sum.splits)

text \<open>
  \<^verbatim>\<open>BaseResource._triggerPut\<close> and \<^verbatim>\<open>_triggerGet\<close>, with the \<^verbatim>\<open>_doPut\<close> and
  \<^verbatim>\<open>_doGet\<close> of \<^verbatim>\<open>Resource\<close>, the only subclass.
\<close>

function triggerPut_loop :: "nat \<Rightarrow> nat \<Rightarrow> ('g, 'c) World \<Rightarrow> ('g, 'c) completion" where
  "triggerPut_loop r idx w =
     (if idx < length (putQueue (resource_heap w r))
      then (let putEvent = putQueue (resource_heap w r) ! idx
            in case doPut r putEvent w of
                 (Inl x, w1) \<Rightarrow> (Inl x, w1)
               | (Inr proceed, w1) \<Rightarrow>
                   if triggered (event_heap w1 putEvent)
                   then (if \<not> proceed
                         then (Inr (), update_resource r (\<lambda>res. res\<lparr>putQueue := splice1 idx (putQueue res)\<rparr>) w1)
                         else triggerPut_loop r idx
                                (update_resource r (\<lambda>res. res\<lparr>putQueue := splice1 idx (putQueue res)\<rparr>) w1))
                   else (if \<not> proceed then (Inr (), w1) else triggerPut_loop r (idx + 1) w1))
      else (Inr (), w))"
  by pat_completeness auto
termination
  by (relation "measure (\<lambda>(r, idx, w). length (putQueue (resource_heap w r)) - idx)")
     (auto simp: update_resource_def splice1_def dest!: doPut_putQueue[OF sym])

function triggerGet_loop :: "nat \<Rightarrow> nat \<Rightarrow> ('g, 'c) World \<Rightarrow> ('g, 'c) completion" where
  "triggerGet_loop r idx w =
     (if idx < length (getQueue (resource_heap w r))
      then (let getEvent = getQueue (resource_heap w r) ! idx
            in case doGet r getEvent w of
                 (Inl x, w1) \<Rightarrow> (Inl x, w1)
               | (Inr proceed, w1) \<Rightarrow>
                   if triggered (event_heap w1 getEvent)
                   then (if \<not> proceed
                         then (Inr (), update_resource r (\<lambda>res. res\<lparr>getQueue := splice1 idx (getQueue res)\<rparr>) w1)
                         else triggerGet_loop r idx
                                (update_resource r (\<lambda>res. res\<lparr>getQueue := splice1 idx (getQueue res)\<rparr>) w1))
                   else (if \<not> proceed then (Inr (), w1) else triggerGet_loop r (idx + 1) w1))
      else (Inr (), w))"
  by pat_completeness auto
termination
  by (relation "measure (\<lambda>(r, idx, w). length (getQueue (resource_heap w r)) - idx)")
     (auto simp: update_resource_def splice1_def dest!: doGet_getQueue[OF sym])

declare triggerPut_loop.simps [simp del] triggerGet_loop.simps [simp del]

definition triggerPut :: "nat \<Rightarrow> ('g, 'c) World \<Rightarrow> ('g, 'c) completion" where
  "triggerPut r w = triggerPut_loop r 0 w"

definition triggerGet :: "nat \<Rightarrow> ('g, 'c) World \<Rightarrow> ('g, 'c) completion" where
  "triggerGet r w = triggerGet_loop r 0 w"

definition new_PutResource :: "nat \<Rightarrow> real \<Rightarrow> ('g, 'c) World \<Rightarrow> (jsval + nat) \<times> ('g, 'c) World" where
  "new_PutResource r n w =
     (case alloc_Event None [] w of (self, w1) \<Rightarrow>
        if n \<le> 0 then (Inl (ErrorObj (InvalidAmount n)), w1)
        else let w2 = update_event self (\<lambda>e. e\<lparr>kind := PutResourceEvent r n (activeProcess w1)\<rparr>) w1;
                 w3 = update_resource r (\<lambda>res. res\<lparr>putQueue := putQueue res @ [self]\<rparr>) w2
             in (case callbacks (event_heap w3 self) of
                   None \<Rightarrow> (Inl (ErrorObj NullDereference), w3)
                 | Some a \<Rightarrow>
                     (case triggerPut r (push_callback a (TriggerGet r) w3) of
                        (Inl x, w4) \<Rightarrow> (Inl x, w4)
                      | (Inr _, w4) \<Rightarrow> (Inr self, w4))))"

text \<open>
  Modelled from the spec: the constructor of \<^verbatim>\<open>GetResource\<close>
  (resources/GetResource.ts is not among the sources).
\<close>

definition new_GetResource :: "nat \<Rightarrow> real \<Rightarrow> ('g, 'c) World \<Rightarrow> (jsval + nat) \<times> ('g, 'c) World" where
  "new_GetResource r n w =
     (case alloc_Event None [] w of (self, w1) \<Rightarrow>
        if n \<le> 0 then (Inl (ErrorObj (InvalidAmount n)), w1)
        else let w2 = update_event self (\<lambda>e. e\<lparr>kind := GetResourceEvent r n (activeProcess w1)\<rparr>) w1;
                 w3 = update_resource r (\<lambda>res. res\<lparr>getQueue := getQueue res @ [self]\<rparr>) w2
             in (case callbacks (event_heap w3 self) of
                   None \<Rightarrow> (Inl (ErrorObj NullDereference), w3)
                 | Some a \<Rightarrow>
                     (case triggerPut r (push_callback a (TriggerPut r) w3) of
                        (Inl x, w4) \<Rightarrow> (Inl x, w4)
                      | (Inr _, w4) \<Rightarrow>
                          (case triggerGet r w4 of
                             (Inl x, w5) \<Rightarrow> (Inl x, w5)
                           | (Inr _, w5) \<Rightarrow> (Inr self, w5)))))"


subsection \<open>Process\<close>

text \<open>
  \<^verbatim>\<open>Initialize\<close> (events/Initialize.ts) and \<^verbatim>\<open>Process\<close> (events/Process.ts).  The
  argument of \<open>new_Process\<close> is the generator object that the generator function returns,
  \<open>None\<close> when it returns something without a \<^verbatim>\<open>throw\<close> method.  The cause of an
  interrupt is a string here, so that \<^verbatim>\<open>Interrupt.toString()\<close> is the concatenation.
\<close>

definition new_Initialize :: "nat \<Rightarrow> ('g, 'c) World \<Rightarrow> nat \<times> ('g, 'c) World" where
  "new_Initialize process w =
     (case alloc_Event None [] w of (self, w1) \<Rightarrow>
        let a = array_count w1;
            w2 = w1\<lparr>array_heap := (array_heap w1)(a := [Resume process]), array_count := a + 1\<rparr>;
            w3 = update_event self (\<lambda>e. e\<lparr>callbacks := Some a, kind := InitializeEvent, ok := Some True\<rparr>) w2
        in (self, schedule self URGENT 0 w3))"

definition new_Process :: "'g option \<Rightarrow> ('g, 'c) World \<Rightarrow> (jsval + nat) \<times> ('g, 'c) World" where
  "new_Process gen w =
     (case alloc_Event None [] w of (self, w1) \<Rightarrow>
        (case gen of
           None \<Rightarrow> (Inl (ErrorObj NotAGenerator), w1)
         | Some g \<Rightarrow>
             (case new_Initialize self (update_event self (\<lambda>e. e\<lparr>kind := ProcessEvent g None\<rparr>) w1) of
                (target, w2) \<Rightarrow> (Inr self, update_event self (\<lambda>e. e\<lparr>kind := ProcessEvent g (Some target)\<rparr>) w2))))"

definition isAlive :: "'g Event \<Rightarrow> bool" where
  "isAlive e = (value' e = PENDING)"

definition interrupt :: "nat \<Rightarrow> string \<Rightarrow> ('g, 'c) World \<Rightarrow> ('g, 'c) World" where
  "interrupt self cause w =
     (if isAlive (event_heap w self)
      then schedule self NORMAL 0
             (update_event self (\<lambda>e. e\<lparr>ok := Some False, value' := Str (''Interrupt: '' @ cause)\<rparr>) w)
      else w)"

fun generator :: "'g EventKind \<Rightarrow> 'g option" where
  "generator (ProcessEvent g t) = Some g"
| "generator k = None"

fun set_generator :: "'g \<Rightarrow> 'g EventKind \<Rightarrow> 'g EventKind" where
  "set_generator g (ProcessEvent g0 t) = ProcessEvent g t"
| "set_generator g k = k"

text \<open>
  \<^verbatim>\<open>Process._resume\<close>.  \<open>resume_generator\<close> is the call of \<^verbatim>\<open>next\<close> or
  \<^verbatim>\<open>throw\<close>, \<open>resume_catch\<close> the \<^verbatim>\<open>catch\<close> block, \<open>resume_loop\<close> the
  \<^verbatim>\<open>while\<close> loop, which goes round again when the yielded event has no callback list and
  so need not terminate.  The branch \<^verbatim>\<open>nextEvent === null\<close> after the loop is never
  taken: a yielded \<^verbatim>\<open>null\<close> is not an \<^verbatim>\<open>Event\<close> and is thrown as an invalid yield.
\<close>

definition resume_catch :: "nat \<Rightarrow> jsval \<Rightarrow> ('g, 'c) World \<Rightarrow> ('g, 'c) World" where
  "resume_catch self e w =
     schedule self NORMAL 0 (update_event self (\<lambda>ev. ev\<lparr>ok := Some False, value' := e\<rparr>) w)"

definition resume_generator ::
  "('g, 'c) Program \<Rightarrow> nat \<Rightarrow> nat \<Rightarrow> ('g, 'c) World \<Rightarrow> GenResult \<times> ('g, 'c) World" where
  "resume_generator P self nextEvent w =
     (case generator (kind (event_heap w self)) of
        None \<Rightarrow> (Throw (ErrorObj NullDereference), w)
      | Some g \<Rightarrow>
          (case (if ok (event_heap w nextEvent) = Some True
                 then gen_next P g (value' (event_heap w nextEvent)) w
                 else gen_throw P g (value' (event_heap w nextEvent)) w) of
             (res, g', w1) \<Rightarrow> (res, update_event self (\<lambda>e. e\<lparr>kind := set_generator g' (kind e)\<rparr>) w1)))"

partial_function (option) resume_loop ::
  "('g, 'c) Program \<Rightarrow> nat \<Rightarrow> nat \<Rightarrow> ('g, 'c) World \<Rightarrow> ('g, 'c) World option" where
  "resume_loop P self nextEvent w =
     (case resume_generator P self nextEvent w of
        (Return v, w1) \<Rightarrow> Some (update_event self (\<lambda>e. e\<lparr>ok := Some True, value' := v\<rparr>) w1)
      | (Throw x, w1) \<Rightarrow> Some (resume_catch self x w1)
      | (Yield y, w1) \<Rightarrow>
          (case y of
             EventRef n \<Rightarrow>
               (case callbacks (event_heap w1 n) of
                  Some a \<Rightarrow> Some (push_callback a (Resume self) w1)
                | None \<Rightarrow> resume_loop P self n w1)
           | _ \<Rightarrow> Some (resume_catch self (ErrorObj (InvalidYield y)) w1)))"

definition resume :: "('g, 'c) Program \<Rightarrow> nat \<Rightarrow> nat \<Rightarrow> ('g, 'c) World \<Rightarrow> ('g, 'c) completion option" where
  "resume P self ev w =
     (case resume_loop P self ev (w\<lparr>activeProcess := Some self\<rparr>) of
        None \<Rightarrow> None
      | Some w' \<Rightarrow> Some (Inr (), w'\<lparr>activeProcess := None\<rparr>))"

subsection \<open>Environment: step and run\<close>

text \<open>
  \<^verbatim>\<open>Environment.step\<close>.  \<open>fan\<close> is its \<^verbatim>\<open>for (const callback of event.callbacks)\<close>:
  the iterator reads the array that was the event's callback list when the loop began
  and sees what is pushed on it meanwhile, so the loop need not terminate.
  \<open>step_event\<close> is the part of \<^verbatim>\<open>step\<close> after the clock has been set.
\<close>

definition call_callback ::
  "('g, 'c) Program \<Rightarrow> 'c Callback \<Rightarrow> nat \<Rightarrow> ('g, 'c) World \<Rightarrow> ('g, 'c) completion option" where
  "call_callback P cb ev w =
     (case cb of
        Check self \<Rightarrow> Some (check self ev w)
      | BuildValue self \<Rightarrow> Some (Inr (), buildValue self ev w)
      | Resume self \<Rightarrow> resume P self ev w
      | TriggerGet r \<Rightarrow> Some (triggerGet r w)
      | TriggerPut r \<Rightarrow> Some (triggerPut r w)
      | StopSimulation_callback \<Rightarrow> Some (StopSimulation_callback_fn ev w)
      | UserCallback c \<Rightarrow> Some (user_call P c ev w)
      | NonFunction v \<Rightarrow> Some (Inr (), w))"

partial_function (option) fan ::
  "('g, 'c) Program \<Rightarrow> nat \<Rightarrow> nat \<Rightarrow> nat \<Rightarrow> ('g, 'c) World \<Rightarrow> ('g, 'c) completion option" where
  "fan P a i ev w =
     (if i < length (array_heap w a)
      then (case call_callback P (array_heap w a ! i) ev w of
              None \<Rightarrow> None
            | Some (Inl x, w') \<Rightarrow> Some (Inl x, w')
            | Some (Inr u, w') \<Rightarrow> fan P a (i + 1) ev w')
      else Some (Inr (), w))"

definition step_event :: "('g, 'c) Program \<Rightarrow> nat \<Rightarrow> ('g, 'c) World \<Rightarrow> ('g, 'c) completion option" where
  "step_event P ev w =
     (case callbacks (event_heap w ev) of
        None \<Rightarrow> Some (Inr (), w)
      | Some a \<Rightarrow>
          (case fan P a 0 ev w of
             None \<Rightarrow> None
           | Some (Inl x, w') \<Rightarrow> Some (Inl x, w')
           | Some (Inr u, w') \<Rightarrow>
               if ok (event_heap w' ev) \<noteq> Some True \<and> \<not> defused (event_heap w' ev)
               then Some (Inl (value' (event_heap w' ev)), w')
               else Some (Inr (), w')))"

definition step :: "('g, 'c) Program \<Rightarrow> ('g, 'c) World \<Rightarrow> ('g, 'c) completion option" where
  "step P w =
     (if length (queue w) = 0 then Some (Inl (ErrorObj EmptySchedule), w)
      else (case heap_pop queue_compare (queue w) of
              (None, q) \<Rightarrow> Some (Inr (), w\<lparr>queue := q\<rparr>)
            | (Some queueItem, q) \<Rightarrow> step_event P (event queueItem) (w\<lparr>queue := q, now := time queueItem\<rparr>)))"

text \<open>\<^verbatim>\<open>Environment.run\<close>; \<open>run_loop\<close> is its \<^verbatim>\<open>while\<close> loop.\<close>

partial_function (option) run_loop ::
  "('g, 'c) Program \<Rightarrow> ('g, 'c) World \<Rightarrow> ('g, 'c) completion option" where
  "run_loop P w =
     (if length (queue w) > 0
      then (case step P w of
              None \<Rightarrow> None
            | Some (Inl x, w') \<Rightarrow> Some (Inl x, w')
            | Some (Inr u, w') \<Rightarrow> run_loop P w')
      else Some (Inr (), w))"

datatype Until = UntilNull | UntilNumber real | UntilEvent nat | UntilOther jsval

definition run :: "('g, 'c) Program \<Rightarrow> Until \<Rightarrow> ('g, 'c) World \<Rightarrow> ('g, 'c) completion option" where
  "run P until w =
     (case until of
        UntilOther v \<Rightarrow> Some (Inl (ErrorObj InvalidUntil), w)
      | UntilEvent u \<Rightarrow>
          (case callbacks (event_heap w u) of
             None \<Rightarrow> Some (Inl (ErrorObj NullDereference), w)
           | Some a \<Rightarrow> run_loop P (push_callback a StopSimulation_callback w))
      | UntilNumber t \<Rightarrow> run_loop P w
      | UntilNull \<Rightarrow> run_loop P w)"

definition process :: "'g option \<Rightarrow> ('g, 'c) World \<Rightarrow> (jsval + nat) \<times> ('g, 'c) World" where
  "process generatorFunction w = new_Process generatorFunction w"


section \<open>Basic facts about the state\<close>

lemma update_event_simps [simp]:
  "event_heap (update_event i f w) = (event_heap w)(i := f (event_heap w i))"
  "queue (update_event i f w) = queue w"
  "now (update_event i f w) = now w"
  "eid' (update_event i f w) = eid' w"
  "activeProcess (update_event i f w) = activeProcess w"
  "array_heap (update_event i f w) = array_heap w"
  "resource_heap (update_event i f w) = resource_heap w"
  "event_count (update_event i f w) = event_count w"
  "array_count (update_event i f w) = array_count w"
  "resource_count (update_event i f w) = resource_count w"
  "env_id (update_event i f w) = env_id w"
  by (simp_all add: update_event_def)

lemma schedule_simps [simp]:
  "event_heap (schedule ev prio delay w) = (event_heap w)(ev := (event_heap w ev)\<lparr>scheduled := True\<rparr>)"
  "queue (schedule ev prio delay w) =
     heap_push queue_compare (queue w)
       \<lparr>time = now w + delay, priority = (if prio = URGENT then 0 else 1), eid = eid' w, event = ev\<rparr>"
  "now (schedule ev prio delay w) = now w"
  "eid' (schedule ev prio delay w) = eid' w + 1"
  "activeProcess (schedule ev prio delay w) = activeProcess w"
  "array_heap (schedule ev prio delay w) = array_heap w"
  "resource_heap (schedule ev prio delay w) = resource_heap w"
  "event_count (schedule ev prio delay w) = event_count w"
  "array_count (schedule ev prio delay w) = array_count w"
  "resource_count (schedule ev prio delay w) = resource_count w"
  "env_id (schedule ev prio delay w) = env_id w"
  by (simp_all add: schedule_def Let_def)

lemma alloc_Event_simps [simp]:
  "fst (alloc_Event ev evs w) = event_count w"
  "event_heap (snd (alloc_Event ev evs w)) = (event_heap w)(event_count w :=
      \<lparr>env = env_id w, callbacks = Some (array_count w), ok = None, defused = False, value' = PENDING,
       scheduled = False, evaluate = ev, events = evs, count' = 0, kind = BaseEvent\<rparr>)"
  "queue (snd (alloc_Event ev evs w)) = queue w"
  "now (snd (alloc_Event ev evs w)) = now w"
  "eid' (snd (alloc_Event ev evs w)) = eid' w"
  "activeProcess (snd (alloc_Event ev evs w)) = activeProcess w"
  "array_heap (snd (alloc_Event ev evs w)) = (array_heap w)(array_count w := [])"
  "resource_heap (snd (alloc_Event ev evs w)) = resource_heap w"
  "event_count (snd (alloc_Event ev evs w)) = event_count w + 1"
  "array_count (snd (alloc_Event ev evs w)) = array_count w + 1"
  "resource_count (snd (alloc_Event ev evs w)) = resource_count w"
  "env_id (snd (alloc_Event ev evs w)) = env_id w"
  by (simp_all add: alloc_Event_def Let_def)

lemma new_Event_empty: "new_Event ev [] w = (Inr (event_count w), snd (alloc_Event ev [] w))"
  by (simp add: new_Event_def alloc_Event_def Let_def)


lemma push_callback_simps [simp]:
  "array_heap (push_callback a cb w) = (array_heap w)(a := array_heap w a @ [cb])"
  "event_heap (push_callback a cb w) = event_heap w"
  "queue (push_callback a cb w) = queue w"
  "now (push_callback a cb w) = now w"
  "eid' (push_callback a cb w) = eid' w"
  "activeProcess (push_callback a cb w) = activeProcess w"
  "resource_heap (push_callback a cb w) = resource_heap w"
  "event_count (push_callback a cb w) = event_count w"
  "array_count (push_callback a cb w) = array_count w"
  "resource_count (push_callback a cb w) = resource_count w"
  "env_id (push_callback a cb w) = env_id w"
  by (simp_all add: push_callback_def)

lemma fan_end: "\<not> i < length (array_heap w a) \<Longrightarrow> fan P a i ev w = Some (Inr (), w)"
  by (subst fan.simps) simp

lemma fan_call:
  "i < length (array_heap w a) \<Longrightarrow>
   fan P a i ev w =
     (case call_callback P (array_heap w a ! i) ev w of
        None \<Rightarrow> None
      | Some (Inl x, w') \<Rightarrow> Some (Inl x, w')
      | Some (Inr u, w') \<Rightarrow> fan P a (i + 1) ev w')"
  by (subst fan.simps) simp

lemma step_nonempty:
  "queue w \<noteq> [] \<Longrightarrow> heap_pop queue_compare (queue w) = (Some item, q) \<Longrightarrow>
   step P w = step_event P (event item) (w\<lparr>queue := q, now := time item\<rparr>)"
  by (simp add: step_def)

lemma heap_push_empty: "heap_push cmp [] x = [x]"
  by (simp add: heap_push_def heapifyUp_def heapifyUp_loop.simps)

lemma heap_pop_single: "heap_pop cmp [x] = (Some x, [])"
  by (simp add: heap_pop_def)


lemma run_loop_end: "queue w = [] \<Longrightarrow> run_loop P w = Some (Inr (), w)"
  by (subst run_loop.simps) simp

lemma run_loop_step:
  "queue w \<noteq> [] \<Longrightarrow>
   run_loop P w =
     (case step P w of
        None \<Rightarrow> None
      | Some (Inl x, w') \<Rightarrow> Some (Inl x, w')
      | Some (Inr u, w') \<Rightarrow> run_loop P w')"
  by (subst run_loop.simps) simp

lemmas heap_eval =
  heap_push_def heapifyUp_def heapifyUp_loop.simps heap_pop_def heapifyDown_def
  heapifyDown_loop_stop heapifyDown_loop_step smallest_child_def queue_compare_def Let_def

lemma new_Timeout_ok:
  "0 \<le> delay \<Longrightarrow>
   new_Timeout delay v w =
     (Inr (event_count w),
      schedule (event_count w) NORMAL delay
        (update_event (event_count w) (\<lambda>e. e\<lparr>kind := TimeoutEvent delay, ok := Some True, value' := v\<rparr>)
           (snd (alloc_Event None [] w))))"
  by (simp add: new_Timeout_def alloc_Event_def Let_def)


lemma resume_loop_unfold:
  "resume_loop P self nextEvent w =
     (case resume_generator P self nextEvent w of
        (Return v, w1) \<Rightarrow> Some (update_event self (\<lambda>e. e\<lparr>ok := Some True, value' := v\<rparr>) w1)
      | (Throw x, w1) \<Rightarrow> Some (resume_catch self x w1)
      | (Yield y, w1) \<Rightarrow>
          (case y of
             EventRef n \<Rightarrow>
               (case callbacks (event_heap w1 n) of
                  Some a \<Rightarrow> Some (push_callback a (Resume self) w1)
                | None \<Rightarrow> resume_loop P self n w1)
           | _ \<Rightarrow> Some (resume_catch self (ErrorObj (InvalidYield y)) w1)))"
  by (subst resume_loop.simps) simp


section \<open>Triggering an event twice\<close>

text \<open>
  C4 (as the code has it).  \<^verbatim>\<open>succeed\<close> and \<^verbatim>\<open>fail\<close> on an event whose
  \<^verbatim>\<open>_value\<close> is no longer the sentinel \<^verbatim>\<open>'PENDING'\<close> throw the error "has already been
  triggered" and change nothing.  \<^verbatim>\<open>trigger\<close> has no such guard: whatever the state
  of its target, it overwrites the target's \<^verbatim>\<open>_ok\<close> and \<^verbatim>\<open>_value\<close> with those of
  the source event.
\<close>

theorem succeed_fail_once:
  "(value' (event_heap w self) \<noteq> PENDING \<longrightarrow>
      succeed self v w = (Inl (ErrorObj (AlreadyTriggered self)), w) \<and>
      fail self x w = (Inl (ErrorObj (AlreadyTriggered self)), w)) \<and>
   ok (event_heap (trigger self src w) self) = ok (event_heap w src) \<and>
   value' (event_heap (trigger self src w) self) = value' (event_heap w src)"
  by (simp add: succeed_def fail_def trigger_def Let_def)

text \<open>Two events, succeeded with the values "first" and "second".\<close>

definition two_succeeded :: "(unit, unit) World" where
  "two_succeeded =
     snd (succeed 1 (Str ''second'')
       (snd (succeed 0 (Str ''first'')
         (snd (new_Event None [] (snd (new_Event None [] (new_Environment 0))))))))"

lemma two_succeeded_values:
  "value' (event_heap two_succeeded 0) = Str ''first''"
  "value' (event_heap two_succeeded (Suc 0)) = Str ''second''"
  "ok (event_heap two_succeeded 0) = Some True"
  by (simp_all add: two_succeeded_def succeed_def new_Event_def alloc_Event_def new_Environment_def
        PENDING_def Let_def)

theorem succeed_fail_once_witness:
  "value' (event_heap two_succeeded 0) \<noteq> PENDING \<and>
   succeed 0 (Str ''again'') two_succeeded = (Inl (ErrorObj (AlreadyTriggered 0)), two_succeeded) \<and>
   fail 0 (ErrorObj (UserError ''late'')) two_succeeded = (Inl (ErrorObj (AlreadyTriggered 0)), two_succeeded) \<and>
   value' (event_heap (trigger 0 1 two_succeeded) 0) = Str ''second''"
  using succeed_fail_once[of two_succeeded 0 "Str ''again''" "ErrorObj (UserError ''late'')" 1]
  by (simp add: two_succeeded_values PENDING_def)

text \<open>
  C4 as stated fails for \<^verbatim>\<open>trigger\<close>: the first event is triggered with "first", and
  \<^verbatim>\<open>trigger\<close> with the second event as source replaces its value by "second".
\<close>

theorem trigger_overwrites_counterexample:
  "triggered (event_heap two_succeeded 0) \<and>
   value' (event_heap two_succeeded 0) = Str ''first'' \<and>
   value' (event_heap (trigger 0 1 two_succeeded) 0) = Str ''second''"
  by (simp add: two_succeeded_values triggered_def PENDING_def trigger_def Let_def)


section \<open>The sentinel value of a pending event\<close>

text \<open>
  C9.  An event is triggered exactly when its \<^verbatim>\<open>_value\<close> differs from the string
  \<^verbatim>\<open>'PENDING'\<close>.  After \<^verbatim>\<open>succeed(v)\<close> with any other value the event reports
  \<^verbatim>\<open>triggered\<close>.  On a pending event \<^verbatim>\<open>succeed('PENDING')\<close> returns normally and the
  event still reports \<^verbatim>\<open>triggered == false\<close>; a later \<^verbatim>\<open>succeed\<close>, and a later
  \<^verbatim>\<open>fail\<close> with an \<^verbatim>\<open>Error\<close>, return normally too, with no
  already-triggered error.
\<close>

theorem succeed_PENDING_sentinel:
  "(v \<noteq> PENDING \<longrightarrow> triggered (event_heap (snd (succeed self v w)) self)) \<and>
   (value' (event_heap w self) = PENDING \<longrightarrow>
      fst (succeed self PENDING w) = Inr () \<and>
      \<not> triggered (event_heap (snd (succeed self PENDING w)) self) \<and>
      fst (succeed self v (snd (succeed self PENDING w))) = Inr () \<and>
      (instanceof_Error x \<longrightarrow> fst (fail self x (snd (succeed self PENDING w))) = Inr ()))"
  by (simp add: succeed_def fail_def triggered_def Let_def)

text \<open>A new environment with one new event.\<close>

definition one_pending :: "(unit, unit) World" where
  "one_pending = snd (new_Event None [] (new_Environment 0))"

lemma one_pending_value: "value' (event_heap one_pending 0) = PENDING"
  by (simp add: one_pending_def new_Event_empty new_Environment_def)

theorem succeed_PENDING_sentinel_witness:
  "Str ''done'' \<noteq> PENDING \<and> value' (event_heap one_pending 0) = PENDING \<and>
   instanceof_Error (ErrorObj (UserError ''late'')) \<and>
   triggered (event_heap (snd (succeed 0 (Str ''done'') one_pending)) 0) \<and>
   fst (succeed 0 PENDING one_pending) = Inr () \<and>
   \<not> triggered (event_heap (snd (succeed 0 PENDING one_pending)) 0) \<and>
   fst (succeed 0 (Str ''done'') (snd (succeed 0 PENDING one_pending))) = Inr () \<and>
   fst (fail 0 (ErrorObj (UserError ''late'')) (snd (succeed 0 PENDING one_pending))) = Inr ()"
  using succeed_PENDING_sentinel[of "Str ''done''" 0 one_pending "ErrorObj (UserError ''late'')"]
    one_pending_value
  by (simp add: PENDING_def)

section \<open>A condition over no events\<close>

text \<open>
  C7 (as the code has it).  Both predicates hold of the empty child list with count 0,
  but the constructor of \<^verbatim>\<open>Event\<close> starts the condition logic only when
  \<^verbatim>\<open>this._events.length > 0\<close>.  An event constructed over an empty child list, with
  any evaluator, is therefore an ordinary pending event: its value is the sentinel, it
  is not triggered and not scheduled, the queue is unchanged and its callback list is
  empty (no value builder is registered).
\<close>

theorem empty_condition_stays_pending:
  "allEvents [] 0 \<and> anyEvents [] 0 \<and>
   fst (new_Event ev [] w) = Inr (event_count w) \<and>
   value' (event_heap (snd (new_Event ev [] w)) (event_count w)) = PENDING \<and>
   \<not> triggered (event_heap (snd (new_Event ev [] w)) (event_count w)) \<and>
   \<not> scheduled (event_heap (snd (new_Event ev [] w)) (event_count w)) \<and>
   queue (snd (new_Event ev [] w)) = queue w \<and>
   array_heap (snd (new_Event ev [] w)) (array_count w) = []"
  by (simp add: new_Event_empty allEvents_def anyEvents_def triggered_def)

text \<open>
  C7 as stated fails: in a new environment the condition events built with
  \<^verbatim>\<open>Event.allEvents\<close> and with \<^verbatim>\<open>Event.anyEvents\<close> over no events are not triggered.
\<close>

theorem empty_condition_counterexample:
  "\<not> triggered (event_heap (snd (new_Event (Some allEvents) [] (new_Environment 0 :: (unit, unit) World))) 0) \<and>
   \<not> triggered (event_heap (snd (new_Event (Some anyEvents) [] (new_Environment 0 :: (unit, unit) World))) 0)"
  by (simp add: new_Event_empty new_Environment_def triggered_def)


section \<open>Fanning the callbacks of an event\<close>














text \<open>
  C6 as stated fails in its second half: a \<^verbatim>\<open>Timeout\<close> has a callback list, and after
  the \<^verbatim>\<open>step\<close> that processes it the event still reports \<^verbatim>\<open>processed == false\<close>.
\<close>

definition one_timeout :: "(unit, unit) World" where
  "one_timeout = snd (new_Timeout 5 Null (new_Environment 0))"

definition idle_program :: "(unit, unit) Program" where
  "idle_program =
     \<lparr>gen_next = (\<lambda>g v w. (Return Undefined, g, w)),
      gen_throw = (\<lambda>g x w. (Throw x, g, w)),
      user_call = (\<lambda>c ev w. (Inr (), w))\<rparr>"

lemma one_timeout_facts:
  "queue one_timeout = [\<lparr>time = 5, priority = 1, eid = 0, event = 0\<rparr>]"
  "callbacks (event_heap one_timeout 0) = Some 0"
  "array_heap one_timeout 0 = []"
  "ok (event_heap one_timeout 0) = Some True"
  by (simp_all add: one_timeout_def new_Timeout_def alloc_Event_def new_Environment_def heap_push_empty Let_def)



section \<open>Running until an event\<close>


lemma one_timeout_value: "value' (event_heap one_timeout 0) = Null" "now one_timeout = 0"
  by (simp_all add: one_timeout_def new_Timeout_def alloc_Event_def new_Environment_def Let_def)






section \<open>Interrupting a process at construction\<close>

text \<open>
  The coroutine \<^verbatim>\<open>try { yield new Timeout(env, 100) } catch (e) { return e }\<close> as a
  generator: before its first \<^verbatim>\<open>next\<close>, suspended at the \<^verbatim>\<open>yield\<close> inside the
  \<^verbatim>\<open>try\<close>, or finished.  An exception thrown into the suspended generator is caught
  and returned; thrown into a generator that has not started or has finished, it comes
  back out.
\<close>

datatype gstate = GStart | GSuspended | GDone

fun coroutine_next :: "gstate \<Rightarrow> jsval \<Rightarrow> (gstate, unit) World \<Rightarrow> GenResult \<times> gstate \<times> (gstate, unit) World" where
  "coroutine_next GStart v w =
     (case new_Timeout 100 Null w of
        (Inr t, w') \<Rightarrow> (Yield (EventRef t), GSuspended, w')
      | (Inl x, w') \<Rightarrow> (Return x, GDone, w'))"
| "coroutine_next GSuspended v w = (Return Undefined, GDone, w)"
| "coroutine_next GDone v w = (Return Undefined, GDone, w)"

fun coroutine_throw :: "gstate \<Rightarrow> jsval \<Rightarrow> (gstate, unit) World \<Rightarrow> GenResult \<times> gstate \<times> (gstate, unit) World" where
  "coroutine_throw GStart x w = (Throw x, GDone, w)"
| "coroutine_throw GSuspended x w = (Return x, GDone, w)"
| "coroutine_throw GDone x w = (Throw x, GDone, w)"

definition coroutine :: "(gstate, unit) Program" where
  "coroutine = \<lparr>gen_next = coroutine_next, gen_throw = coroutine_throw, user_call = (\<lambda>c ev w. (Inr (), w))\<rparr>"

lemma coroutine_simps [simp]:
  "gen_next coroutine = coroutine_next" "gen_throw coroutine = coroutine_throw"
  by (simp_all add: coroutine_def)

text \<open>
  The process of this coroutine in a new environment, interrupted with the cause "boom"
  right after its construction.
\<close>

definition scenario4 :: "(gstate, unit) World" where
  "scenario4 = interrupt 0 ''boom'' (snd (process (Some GStart) (new_Environment 0)))"

lemma scenario4_facts:
  "queue scenario4 = [\<lparr>time = 0, priority = 0, eid = 0, event = 1\<rparr>, \<lparr>time = 0, priority = 1, eid = 1, event = 0\<rparr>]"
  "now scenario4 = 0"
  "eid' scenario4 = 2"
  "event_count scenario4 = 2"
  "array_count scenario4 = 3"
  "callbacks (event_heap scenario4 0) = Some 0"
  "callbacks (event_heap scenario4 (Suc 0)) = Some 2"
  "array_heap scenario4 0 = []"
  "array_heap scenario4 2 = [Resume 0]"
  "ok (event_heap scenario4 0) = Some False"
  "ok (event_heap scenario4 (Suc 0)) = Some True"
  "defused (event_heap scenario4 0) = False"
  "value' (event_heap scenario4 0) = Str ''Interrupt: boom''"
  "value' (event_heap scenario4 (Suc 0)) = PENDING"
  "kind (event_heap scenario4 0) = ProcessEvent GStart (Some 1)"
  by (simp_all add: scenario4_def interrupt_def isAlive_def process_def new_Process_def new_Initialize_def
        alloc_Event_def new_Environment_def heap_eval)

lemma scenario4_run:
  "case run coroutine UntilNull scenario4 of
     None \<Rightarrow> False
   | Some (r, w') \<Rightarrow>
       r = Inl (Str ''Interrupt: boom'') \<and> now w' = 0 \<and>
       ok (event_heap w' 0) = Some False \<and> value' (event_heap w' 0) = Str ''Interrupt: boom'' \<and>
       generator (kind (event_heap w' 0)) = Some GSuspended \<and>
       map event (queue w') = [2] \<and> map time (queue w') = [100]"
  by (simp add: run_def run_loop_step run_loop_end step_def step_event_def fan_call fan_end
        call_callback_def resume_def resume_loop_unfold resume_generator_def resume_catch_def
        new_Timeout_ok scenario4_facts heap_eval PENDING_def)

text \<open>
  C3 (as the code has it).  \<^verbatim>\<open>interrupt\<close> stores the string "Interrupt: boom" as the
  failure value of the process and schedules the process itself.  The process has no
  callback, so when its item is popped nothing is thrown into the coroutine; the event is
  a failure that is not defused, and \<^verbatim>\<open>step\<close> raises its value.  \<^verbatim>\<open>run()\<close>
  therefore raises the string "Interrupt: boom" with the clock at 0, the outcome of the
  process is a failure with that string as value, and the coroutine is still suspended at
  its \<^verbatim>\<open>yield\<close>.
\<close>

theorem interrupt_scenario:
  "\<exists>w'. run coroutine UntilNull scenario4 = Some (Inl (Str ''Interrupt: boom''), w') \<and>
        now w' = 0 \<and>
        ok (event_heap w' 0) = Some False \<and>
        value' (event_heap w' 0) = Str ''Interrupt: boom'' \<and>
        generator (kind (event_heap w' 0)) = Some GSuspended"
proof (cases "run coroutine UntilNull scenario4")
  case None
  then show ?thesis using scenario4_run by simp
next
  case (Some rw)
  obtain r w' where rw: "rw = (r, w')" by (cases rw)
  show ?thesis using scenario4_run Some rw by simp
qed

text \<open>
  C3 as stated fails: \<^verbatim>\<open>run()\<close> does not return normally, and the outcome of the
  process is not a success.
\<close>

theorem interrupt_scenario_counterexample:
  "\<not> (\<exists>w'. run coroutine UntilNull scenario4 = Some (Inr (), w')) \<and>
   \<not> (\<exists>r w'. run coroutine UntilNull scenario4 = Some (r, w') \<and> ok (event_heap w' 0) = Some True)"
proof (cases "run coroutine UntilNull scenario4")
  case None
  then show ?thesis by simp
next
  case (Some rw)
  obtain r w' where rw: "rw = (r, w')" by (cases rw)
  show ?thesis using scenario4_run Some rw by simp
qed


section \<open>The scheduling queue\<close>

text \<open>
  The key by which the comparator of the environment orders the items, and the order of
  the specification spelled out: earlier time first, then the lower priority class, then
  the lower insertion number.
\<close>

definition queue_key :: "QueueItem \<Rightarrow> real \<times> nat \<times> nat" where
  "queue_key a = (time a, priority a, eid a)"

lemma queue_compare_key: "cmp_key queue_compare queue_key"
  by (auto simp: cmp_key_def queue_compare_def queue_key_def)



lemma heapifyUp_loop_step:
  "0 < idx \<Longrightarrow> \<not> cmp item (xs ! ((idx - 1) div 2)) \<ge> 0 \<Longrightarrow>
   heapifyUp_loop cmp item xs idx =
     heapifyUp_loop cmp item (xs[(idx - 1) div 2 := item, idx := xs ! ((idx - 1) div 2)]) ((idx - 1) div 2)"
  by (subst heapifyUp_loop.simps) (simp add: Let_def)

lemma heapifyUp_loop_stop:
  "\<not> (0 < idx \<and> \<not> cmp item (xs ! ((idx - 1) div 2)) \<ge> 0) \<Longrightarrow> heapifyUp_loop cmp item xs idx = xs"
  by (subst heapifyUp_loop.simps) (auto simp: Let_def)

lemma length_heapifyUp_loop: "length (heapifyUp_loop cmp item xs k) = length xs"
proof (induction cmp item xs k rule: heapifyUp_loop.induct)
  case (1 cmp item xs idx)
  show ?case
  proof (cases "0 < idx \<and> \<not> cmp item (xs ! ((idx - 1) div 2)) \<ge> 0")
    case True
    then show ?thesis using "1.IH"[OF _ refl refl] by (simp add: heapifyUp_loop_step)
  next
    case False
    then show ?thesis by (simp add: heapifyUp_loop_stop)
  qed
qed

lemma length_heap_push: "length (heap_push cmp xs x) = length xs + 1"
  by (simp add: heap_push_def heapifyUp_def length_heapifyUp_loop)

lemma length_heapifyDown_loop: "length (heapifyDown_loop cmp item xs k) = length xs"
proof (induction cmp item xs k rule: heapifyDown_loop.induct)
  case (1 cmp item xs idx)
  show ?case
  proof (cases "smallest_child cmp xs idx = idx")
    case True
    then show ?thesis by (simp add: heapifyDown_loop_stop)
  next
    case False
    then show ?thesis using "1.IH"[OF refl False] by (simp add: heapifyDown_loop_step)
  qed
qed

lemma length_heap_pop: "heap_pop cmp xs = (popped, rest) \<Longrightarrow> length rest = length xs - 1"
  by (auto simp: heap_pop_def Let_def heapifyDown_def length_heapifyDown_loop split: if_splits
        dest: arg_cong[where f = length])


lemma heap_pop_None: "heap_pop cmp xs = (None, rest) \<Longrightarrow> xs = [] \<and> rest = []"
  by (auto simp: heap_pop_def Let_def split: if_splits)

lemma mset_heapifyUp_loop:
  "k < length xs \<Longrightarrow> xs ! k = item \<Longrightarrow> mset (heapifyUp_loop cmp item xs k) = mset xs"
proof (induction cmp item xs k rule: heapifyUp_loop.induct)
  case (1 cmp item xs idx)
  let ?p = "(idx - 1) div 2"
  show ?case
  proof (cases "0 < idx \<and> \<not> cmp item (xs ! ?p) \<ge> 0")
    case True
    then have pk: "?p < idx" using parent_less by blast
    let ?ys = "xs[?p := item, idx := xs ! ?p]"
    have "mset (heapifyUp_loop cmp item ?ys ?p) = mset ?ys"
      using "1.IH"[OF _ refl refl] True pk "1.prems" by (simp add: nth_list_update)
    moreover have "mset ?ys = mset xs"
      using mset_swap[of idx xs ?p] pk "1.prems" by simp
    ultimately show ?thesis using True by (simp add: heapifyUp_loop_step)
  next
    case False
    then show ?thesis by (simp add: heapifyUp_loop_stop)
  qed
qed

lemma mset_heap_push: "mset (heap_push cmp xs x) = add_mset x (mset xs)"
  using mset_heapifyUp_loop[of "length xs" "xs @ [x]" x cmp]
  by (simp add: heap_push_def heapifyUp_def)

lemma set_heap_push: "set (heap_push cmp xs x) = insert x (set xs)"
proof -
  have "mset (heap_push cmp xs x) = mset (x # xs)" by (simp add: mset_heap_push)
  then have "set (heap_push cmp xs x) = set (x # xs)" by (rule mset_eq_setD)
  then show ?thesis by simp
qed

lemma distinct_map_add_mset:
  assumes "mset xs = add_mset a (mset ys)"
  shows "distinct (map f xs) \<longleftrightarrow> f a \<notin> f ` set ys \<and> distinct (map f ys)"
proof -
  have "mset (map f xs) = mset (map f (a # ys))" using assms by simp
  then have "distinct (map f xs) \<longleftrightarrow> distinct (map f (a # ys))" by (rule mset_eq_imp_distinct_iff)
  then show ?thesis by simp
qed

lemma set_add_mset:
  assumes "mset xs = add_mset a (mset ys)"
  shows "set xs = insert a (set ys)"
proof -
  have "mset xs = mset (a # ys)" using assms by simp
  then have "set xs = set (a # ys)" by (rule mset_eq_setD)
  then show ?thesis by simp
qed

text \<open>
  The queues that the class can hold: the item array is private to \<^verbatim>\<open>Heap\<close> and the heap
  is private to \<^verbatim>\<open>Environment\<close>, so it starts empty with \<^verbatim>\<open>_eid = 0\<close>, and changes
  only by the \<^verbatim>\<open>push\<close> of \<^verbatim>\<open>schedule\<close>, whose item carries the next \<^verbatim>\<open>_eid\<close> and
  class 0 or 1, and by the \<^verbatim>\<open>pop\<close> of \<^verbatim>\<open>step\<close>.
\<close>

inductive api_queue :: "QueueItem list \<Rightarrow> nat \<Rightarrow> bool" where
  api_new: "api_queue [] 0"
| api_schedule: "api_queue q n \<Longrightarrow> p \<le> 1 \<Longrightarrow>
    api_queue (heap_push queue_compare q \<lparr>time = t, priority = p, eid = n, event = ev\<rparr>) (n + 1)"
| api_pop: "api_queue q n \<Longrightarrow> heap_pop queue_compare q = (popped, q') \<Longrightarrow> api_queue q' n"

lemma api_queue_inv:
  "api_queue q n \<Longrightarrow> heap_inv queue_key q \<and> distinct (map eid q) \<and> (\<forall>x \<in> set q. eid x < n)"
proof (induction rule: api_queue.induct)
  case api_new
  then show ?case by (simp add: heap_inv_def)
next
  case (api_schedule q n p t ev)
  let ?x = "\<lparr>time = t, priority = p, eid = n, event = ev\<rparr>"
  have h: "heap_inv queue_key (heap_push queue_compare q ?x)"
    using heap_push_correct(1)[OF queue_compare_key] api_schedule.IH by blast
  have "eid ?x \<notin> eid ` set q" using api_schedule.IH by auto
  then have d: "distinct (map eid (heap_push queue_compare q ?x))"
    using distinct_map_add_mset[OF mset_heap_push, of eid queue_compare q ?x] api_schedule.IH by blast
  have "\<forall>x \<in> set (heap_push queue_compare q ?x). eid x < n + 1"
    using api_schedule.IH by (auto simp: set_heap_push)
  then show ?case using h d by simp
next
  case (api_pop q n popped q')
  show ?case
  proof (cases "q = []")
    case True
    then show ?thesis using api_pop by (simp add: heap_pop_empty heap_inv_def)
  next
    case False
    obtain rest where r: "heap_pop queue_compare q = (Some (q ! 0), rest)" "heap_inv queue_key rest"
      "mset q = add_mset (q ! 0) (mset rest)"
      using heap_pop_correct[OF queue_compare_key _ False] api_pop.IH by blast
    then have q': "q' = rest" using api_pop.hyps(2) by simp
    have d: "distinct (map eid rest)"
      using distinct_map_add_mset[OF r(3), of eid] api_pop.IH by blast
    have "set rest \<subseteq> set q" using set_add_mset[OF r(3)] by blast
    then show ?thesis using r(2) d q' api_pop.IH by auto
  qed
qed



lemma queue_key_time: "queue_key a \<le> queue_key b \<Longrightarrow> time a \<le> time b"
  by (auto simp: queue_key_def)

lemma api_queue_pop:
  assumes "api_queue q n" "q \<noteq> []"
  shows "\<exists>item rest. heap_pop queue_compare q = (Some item, rest) \<and> item \<in> set q \<and>
           (\<forall>x \<in> set q. queue_key item \<le> queue_key x) \<and>
           mset q = add_mset item (mset rest) \<and> api_queue rest n"
proof -
  have h: "heap_inv queue_key q" using api_queue_inv[OF assms(1)] by simp
  obtain rest where r: "heap_pop queue_compare q = (Some (q ! 0), rest)"
      "mset q = add_mset (q ! 0) (mset rest)"
    using heap_pop_correct[OF queue_compare_key h assms(2)] by blast
  have m: "\<forall>x \<in> set q. queue_key (q ! 0) \<le> queue_key x" using heap_inv_min[OF h] by blast
  have i: "q ! 0 \<in> set q" using assms(2) by simp
  have a: "api_queue rest n" using api_pop[OF assms(1) r(1)] .
  show ?thesis using r m i a by blast
qed




















lemma new_Timeout_negative:
  "delay < 0 \<Longrightarrow>
   new_Timeout delay v w = (Inl (ErrorObj (NegativeDelay delay)), snd (alloc_Event None [] w))"
  by (simp add: new_Timeout_def alloc_Event_def Let_def)

text \<open>
  C8 (as the code has it).  \<^verbatim>\<open>schedule\<close> does not look at the sign of the delay: for
  every delay it adds an item at \<^verbatim>\<open>now + delay\<close> to the queue.  A negative delay is
  refused only by the constructor of \<^verbatim>\<open>Timeout\<close>, which raises before it schedules
  anything.  When no queued item is earlier than the clock, scheduling with a delay
  that is not negative keeps it so, and the item that is popped next is not earlier than
  the clock and not later than the items that remain: the clock does not go back.
\<close>

theorem schedule_unchecked_delay:
  "mset (queue (schedule ev prio delay w)) =
     add_mset \<lparr>time = now w + delay, priority = (if prio = URGENT then 0 else 1),
               eid = eid' w, event = ev\<rparr> (mset (queue w)) \<and>
   (delay < 0 \<longrightarrow>
      fst (new_Timeout delay v w) = Inl (ErrorObj (NegativeDelay delay)) \<and>
      queue (snd (new_Timeout delay v w)) = queue w) \<and>
   ((\<forall>x \<in> set (queue w). now w \<le> time x) \<and> 0 \<le> delay \<longrightarrow>
      (\<forall>x \<in> set (queue (schedule ev prio delay w)). now (schedule ev prio delay w) \<le> time x)) \<and>
   (api_queue (queue w) (eid' w) \<and> (\<forall>x \<in> set (queue w). now w \<le> time x) \<and>
    heap_pop queue_compare (queue w) = (Some item, q) \<longrightarrow>
      now w \<le> time item \<and> (\<forall>x \<in> set q. time item \<le> time x))"
proof (intro conjI impI)
  show "mset (queue (schedule ev prio delay w)) =
     add_mset \<lparr>time = now w + delay, priority = (if prio = URGENT then 0 else 1),
               eid = eid' w, event = ev\<rparr> (mset (queue w))"
    by (simp add: mset_heap_push)
next
  assume "delay < 0"
  then show "fst (new_Timeout delay v w) = Inl (ErrorObj (NegativeDelay delay))"
    and "queue (snd (new_Timeout delay v w)) = queue w"
    by (simp_all add: new_Timeout_negative)
next
  assume "(\<forall>x \<in> set (queue w). now w \<le> time x) \<and> 0 \<le> delay"
  then show "\<forall>x \<in> set (queue (schedule ev prio delay w)). now (schedule ev prio delay w) \<le> time x"
    by (simp add: set_heap_push)
next
  assume A: "api_queue (queue w) (eid' w) \<and> (\<forall>x \<in> set (queue w). now w \<le> time x) \<and>
    heap_pop queue_compare (queue w) = (Some item, q)"
  then have ne: "queue w \<noteq> []" by (auto simp: heap_pop_empty)
  obtain item' rest where r: "heap_pop queue_compare (queue w) = (Some item', rest)"
      "item' \<in> set (queue w)" "\<forall>x \<in> set (queue w). queue_key item' \<le> queue_key x"
      "mset (queue w) = add_mset item' (mset rest)"
    using api_queue_pop[of "queue w" "eid' w"] A ne by blast
  have e: "item' = item" "rest = q" using r(1) A by simp_all
  have sub: "set q \<subseteq> set (queue w)" using set_add_mset[OF r(4)] e by blast
  show "now w \<le> time item" using A r(2) e by blast
  show "\<forall>x \<in> set q. time item \<le> time x" using r(3) e sub queue_key_time by blast
qed

text \<open>
  C8 as stated fails: \<^verbatim>\<open>schedule\<close> with delay -1 on the \<^verbatim>\<open>Timeout\<close> of a new
  environment returns normally with an item at time -1, before the clock, and the next
  \<^verbatim>\<open>step\<close> sets the clock back from 0 to -1.
\<close>

definition rescheduled :: "(unit, unit) World" where
  "rescheduled = schedule 0 NORMAL (- 1) one_timeout"

lemma rescheduled_queue:
  "queue rescheduled =
     [\<lparr>time = - 1, priority = 1, eid = 1, event = 0\<rparr>, \<lparr>time = 5, priority = 1, eid = 0, event = 0\<rparr>]"
  "now rescheduled = 0"
  "callbacks (event_heap rescheduled 0) = Some 0"
  "array_heap rescheduled 0 = []"
  "ok (event_heap rescheduled 0) = Some True"
  by (simp_all add: rescheduled_def one_timeout_facts one_timeout_value one_timeout_def new_Timeout_def
        alloc_Event_def new_Environment_def heap_eval)

theorem schedule_negative_delay_counterexample:
  "now rescheduled = 0 \<and>
   queue rescheduled =
     [\<lparr>time = - 1, priority = 1, eid = 1, event = 0\<rparr>, \<lparr>time = 5, priority = 1, eid = 0, event = 0\<rparr>] \<and>
   (\<exists>w'. step idle_program rescheduled = Some (Inr (), w') \<and> now w' = - 1)"
proof -
  have p: "heap_pop queue_compare (queue rescheduled) =
      (Some \<lparr>time = - 1, priority = 1, eid = 1, event = 0\<rparr>, [\<lparr>time = 5, priority = 1, eid = 0, event = 0\<rparr>])"
    by (simp add: rescheduled_queue heap_eval)
  have n: "queue rescheduled \<noteq> []" by (simp add: rescheduled_queue)
  have "step idle_program rescheduled =
      Some (Inr (), rescheduled\<lparr>queue := [\<lparr>time = 5, priority = 1, eid = 0, event = 0\<rparr>], now := - 1\<rparr>)"
    by (simp add: step_nonempty[OF n p] rescheduled_queue step_event_def fan_end)
  then show ?thesis by (simp add: rescheduled_queue)
qed

theorem schedule_unchecked_delay_witness:
  "- 1 < (0 :: real) \<and>
   mset (queue (schedule 0 NORMAL (- 1) one_timeout)) =
     add_mset \<lparr>time = - 1, priority = 1, eid = 1, event = 0\<rparr> (mset (queue one_timeout)) \<and>
   fst (new_Timeout (- 1) Null one_timeout) = Inl (ErrorObj (NegativeDelay (- 1))) \<and>
   queue (snd (new_Timeout (- 1) Null one_timeout)) = queue one_timeout \<and>
   api_queue (queue one_timeout) (eid' one_timeout) \<and>
   heap_pop queue_compare (queue one_timeout) = (Some \<lparr>time = 5, priority = 1, eid = 0, event = 0\<rparr>, []) \<and>
   now one_timeout \<le> 5 \<and>
   set (queue (schedule 0 NORMAL 2 one_timeout)) =
     {\<lparr>time = 2, priority = 1, eid = 1, event = 0\<rparr>, \<lparr>time = 5, priority = 1, eid = 0, event = 0\<rparr>}"
proof -
  let ?i = "\<lparr>time = 5, priority = 1, eid = 0, event = 0\<rparr>"
  have e: "eid' one_timeout = 1"
    by (simp add: one_timeout_def new_Timeout_ok alloc_Event_def new_Environment_def)
  have "api_queue [?i] 1" using api_schedule[OF api_new, of 1 5 0] by (simp add: heap_push_empty)
  then have a: "api_queue (queue one_timeout) (eid' one_timeout)" by (simp add: one_timeout_facts e)
  have p: "heap_pop queue_compare (queue one_timeout) = (Some ?i, [])"
    by (simp add: one_timeout_facts heap_pop_single)
  have b: "\<forall>x \<in> set (queue one_timeout). now one_timeout \<le> time x"
    by (simp add: one_timeout_facts one_timeout_value)
  note T1 = schedule_unchecked_delay[of 0 NORMAL "- 1" one_timeout Null ?i "[]"]
  note T2 = schedule_unchecked_delay[of 0 NORMAL 2 one_timeout Null ?i "[]"]
  have s: "set (queue (schedule 0 NORMAL 2 one_timeout)) =
     {\<lparr>time = 2, priority = 1, eid = 1, event = 0\<rparr>, ?i}"
    by (simp add: set_heap_push one_timeout_facts one_timeout_value e)
  have t: "now one_timeout \<le> 5" using T2 a b p by simp
  show ?thesis
    using T1 a p s t by (simp add: one_timeout_value e)
qed

end
